theory Spec2Isabelle
  imports Main "HOL-Library.Sublist" "HOL-Library.AList"
begin

section \<open>Python strings\<close>

text \<open>
  A Python \<open>str\<close> is a sequence of Unicode code points, so a string is a list of
  natural numbers. Literals of the source that are plain ASCII are written as HOL
  strings and converted with \<open>ustr\<close>; the emoji of the column names are given by
  their code points.
\<close>

type_synonym ustring = "nat list"

definition ustr :: "string \<Rightarrow> ustring" where
  "ustr s = map of_char s"

text \<open>
  \<open>str.isspace\<close> of one code point: the white-space table of CPython
  (\<open>_PyUnicode_IsWhitespace\<close>), which is what \<open>str.strip()\<close> with no argument
  removes.
\<close>

definition isspace :: "nat \<Rightarrow> bool" where
  "isspace c \<longleftrightarrow>
     (0x09 \<le> c \<and> c \<le> 0x0D) \<or> (0x1C \<le> c \<and> c \<le> 0x20) \<or> c = 0x85 \<or> c = 0xA0 \<or>
     c = 0x1680 \<or> (0x2000 \<le> c \<and> c \<le> 0x200A) \<or> c = 0x2028 \<or> c = 0x2029 \<or>
     c = 0x202F \<or> c = 0x205F \<or> c = 0x3000"

definition lstrip :: "ustring \<Rightarrow> ustring" where
  "lstrip s = dropWhile isspace s"

definition rstrip :: "ustring \<Rightarrow> ustring" where
  "rstrip s = rev (dropWhile isspace (rev s))"

definition strip :: "ustring \<Rightarrow> ustring" where
  "strip s = rstrip (lstrip s)"

text \<open>
  \<open>s.split(sep)\<close> for a non-empty separator: the scan goes from left to right, a
  match of \<open>sep\<close> closes the current segment and the scan goes on behind the match,
  so matches never overlap. \<open>cur\<close> is the segment being collected. (Python raises
  \<open>ValueError\<close> for an empty separator; the source only splits on \<open>###\<close>.)
\<close>

fun split_from :: "'a list \<Rightarrow> 'a list \<Rightarrow> 'a list \<Rightarrow> 'a list list" where
  "split_from sep cur [] = [cur]"
| "split_from sep cur (c # cs) =
     (if sep \<noteq> [] \<and> prefix sep (c # cs)
      then cur # split_from sep [] (drop (length sep - 1) cs)
      else split_from sep (cur @ [c]) cs)"

definition str_split :: "'a list \<Rightarrow> 'a list \<Rightarrow> 'a list list" where
  "str_split sep s = split_from sep [] s"

text \<open>\<open>s.replace(old, new)\<close> for a non-empty \<open>old\<close>: every non-overlapping match, left to right.\<close>

fun str_replace :: "'a list \<Rightarrow> 'a list \<Rightarrow> 'a list \<Rightarrow> 'a list" where
  "str_replace old new [] = []"
| "str_replace old new (c # cs) =
     (if old \<noteq> [] \<and> prefix old (c # cs)
      then new @ str_replace old new (drop (length old - 1) cs)
      else c # str_replace old new cs)"

text \<open>\<open>sub in s\<close> on strings: \<open>sub\<close> occurs in \<open>s\<close> as a contiguous piece.\<close>

fun str_contains :: "'a list \<Rightarrow> 'a list \<Rightarrow> bool" where
  "str_contains sub [] = (sub = [])"
| "str_contains sub (c # cs) = (prefix sub (c # cs) \<or> str_contains sub cs)"

text \<open>\<open>sep.join(xs)\<close>, used to write the multi-line literals of the source line by line.\<close>

fun str_join :: "'a list \<Rightarrow> 'a list list \<Rightarrow> 'a list" where
  "str_join sep [] = []"
| "str_join sep [x] = x"
| "str_join sep (x # y # ys) = x @ sep @ str_join sep (y # ys)"

section \<open>Exceptions\<close>

text \<open>
  What a \<open>try\<close> block of the source can see raised. \<open>except Exception\<close> catches the
  subclasses of \<open>Exception\<close> only; a bare \<open>except:\<close> catches everything.
\<close>

datatype exn =
    PyException ustring   \<comment> \<open>any subclass of \<open>Exception\<close>, with its class name\<close>
  | KeyboardInterrupt
  | SystemExit

fun is_Exception :: "exn \<Rightarrow> bool" where
  "is_Exception (PyException _) = True"
| "is_Exception _ = False"

section \<open>Text Extractor\<close>

text \<open>
  PyPDF2 is outside the repository, so the parser is a parameter: \<open>PdfReader\<close> either
  raises or yields the pages of the document, and \<open>extract_text\<close> either raises or
  yields the text of one page. (A failure while \<open>reader.pages\<close> is iterated is a failure
  of the page it was about to yield.)
\<close>

type_synonym bytes = "nat list"

text \<open>The loop \<open>for page in reader.pages: text += page.extract_text() + "\n"\<close>.\<close>

fun extract_pages :: "('page \<Rightarrow> exn + ustring) \<Rightarrow> ustring \<Rightarrow> 'page list \<Rightarrow> exn + ustring" where
  "extract_pages extract_text text [] = Inr text"
| "extract_pages extract_text text (page # pages) =
     (case extract_text page of
        Inl e \<Rightarrow> Inl e
      | Inr t \<Rightarrow> extract_pages extract_text (text @ t @ ustr ''\<newline>'') pages)"

text \<open>
  The body of the \<open>try\<close>, then the handler: \<open>except Exception\<close> returns the empty
  string; anything that is not an \<open>Exception\<close> goes on to the caller (\<open>Inl\<close>).
\<close>

definition extract_text_from_pdf ::
  "(bytes \<Rightarrow> exn + 'page list) \<Rightarrow> ('page \<Rightarrow> exn + ustring) \<Rightarrow> bytes \<Rightarrow> exn + ustring" where
  "extract_text_from_pdf PdfReader extract_text file_bytes =
     (case (case PdfReader file_bytes of
              Inl e \<Rightarrow> Inl e
            | Inr pages \<Rightarrow> extract_pages extract_text [] pages) of
        Inr text \<Rightarrow> Inr text
      | Inl e \<Rightarrow> if is_Exception e then Inr [] else Inl e)"

section \<open>Model Selector\<close>

text \<open>
  What \<open>genai.list_models()\<close> yields for one model: its name and the generation
  methods it supports.
\<close>

record model_info =
  name :: ustring
  supported_generation_methods :: "ustring list"

text \<open>
  The truth value of an optional string in \<open>if chosen_model\<close> and
  \<open>if not chosen_model\<close>: \<open>None\<close> and the empty string are false.
\<close>

fun truthy :: "ustring option \<Rightarrow> bool" where
  "truthy None = False"
| "truthy (Some s) = (s \<noteq> [])"

text \<open>
  \<open>str.lower\<close> on ASCII text. The Unicode case tables belong to CPython, not to the
  repository, so the selector takes \<open>lower\<close> as a parameter; this is its instance for
  identifiers written in ASCII.
\<close>

definition ascii_lower :: "ustring \<Rightarrow> ustring" where
  "ascii_lower s = map (\<lambda>c. if 0x41 \<le> c \<and> c \<le> 0x5A then c + 0x20 else c) s"

definition is_flash :: "(ustring \<Rightarrow> ustring) \<Rightarrow> ustring \<Rightarrow> bool" where
  "is_flash lower m \<longleftrightarrow> str_contains (ustr ''flash'') (lower m) \<and> str_contains (ustr ''1.5'') m"

definition is_pro :: "(ustring \<Rightarrow> ustring) \<Rightarrow> ustring \<Rightarrow> bool" where
  "is_pro lower m \<longleftrightarrow> str_contains (ustr ''pro'') (lower m) \<and> str_contains (ustr ''1.5'') m"

text \<open>
  Lines 45 to 53: \<open>next((m for m in all_models if ...), None)\<close> is the first match in
  list order, or \<open>None\<close>. The handle \<open>genai.GenerativeModel(chosen_model)\<close> is
  represented by the identifier it is bound to.
\<close>

definition select_model :: "(ustring \<Rightarrow> ustring) \<Rightarrow> ustring list \<Rightarrow> ustring option" where
  "select_model lower all_models =
     (let chosen_model = find (is_flash lower) all_models;
          chosen_model = (if \<not> truthy chosen_model then find (is_pro lower) all_models
                          else chosen_model);
          chosen_model = (if \<not> truthy chosen_model \<and> all_models \<noteq> [] then Some (hd all_models)
                          else chosen_model)
      in if truthy chosen_model then chosen_model else None)"

text \<open>
  \<open>list_models\<close> stands for \<open>genai.configure(api_key=api_key)\<close> followed by
  \<open>genai.list_models()\<close>: the service either raises (a credential it refuses, no
  network) or yields the models. The bare \<open>except\<close> turns every failure into \<open>None\<close>.
\<close>

definition get_gemini_model ::
  "(ustring \<Rightarrow> ustring) \<Rightarrow> (ustring \<Rightarrow> exn + model_info list) \<Rightarrow> ustring \<Rightarrow> ustring option" where
  "get_gemini_model lower list_models api_key =
     (case list_models api_key of
        Inl e \<Rightarrow> None
      | Inr models \<Rightarrow>
          (let all_models =
                 map name (filter (\<lambda>m. ustr ''generateContent'' \<in> set (supported_generation_methods m)) models)
           in select_model lower all_models))"

section \<open>Call Analyzer\<close>

text \<open>
  The bound model handle: \<open>model.generate_content(prompt, safety_settings=...)\<close>
  followed by \<open>response.text\<close> either raises or yields the reply text. The service
  is outside the repository, so the handle is a parameter.
\<close>

type_synonym safety_settings = "(ustring \<times> ustring) list list"

type_synonym gen_model = "ustring \<Rightarrow> safety_settings option \<Rightarrow> exn + ustring"

type_synonym pydict = "(ustring \<times> ustring) list"

definition audit_prompt :: ustring where
  "audit_prompt = ustr (str_join ''\<newline>''
    ['''',
     ''    You are a QA Auditor for 'The House of Abhinandan Lodha' (Navratna at Vrindavan).'',
     ''    Analyze this sales call transcript. Output strictly in English.'',
     '''',
     ''    **Extract these 10 Fields:**'',
     ''    1. Lead Intent (Pure Investor / Spiritual Buyer / Second-home / Mixed)'',
     ''    2. Brand Trust (Yes/No + Detail)'',
     ''    3. Value (Yes/No + Detail)'',
     ''    4. ROI (Yes/No + Detail)'',
     ''    5. Spiritual (Yes/No + Detail)'',
     ''    6. Technical (Yes/No + Detail)'',
     ''    7. Urgency: 6L+2L Offer (Did they use it?)'',
     ''    8. Urgency: Price Movement (Did they use it?)'',
     ''    9. Family Objections'',
     ''    10. Pitch Flow Adherence %'',
     '''',
     ''    **OUTPUT FORMAT (Single Line separated by ###):**'',
     ''    CSM Name###Customer Name###Lead Intent###Brand Trust (Yes/No)###Brand Trust Detail###Value (Yes/No)###Value Detail###ROI (Yes/No)###ROI Detail###Spiritual (Yes/No)###Spiritual Detail###Technical (Yes/No)###Technical Detail###Urgency: Offers###Urgency: Price Move###Family Objections###Pitch Flow %'',
     ''    '',
     ''    **TRANSCRIPT:**'',
     ''    ''])"

definition safe :: safety_settings where
  "safe =
    [[(ustr ''category'', ustr ''HARM_CATEGORY_HARASSMENT''), (ustr ''threshold'', ustr ''BLOCK_NONE'')],
     [(ustr ''category'', ustr ''HARM_CATEGORY_HATE_SPEECH''), (ustr ''threshold'', ustr ''BLOCK_NONE'')],
     [(ustr ''category'', ustr ''HARM_CATEGORY_SEXUALLY_EXPLICIT''), (ustr ''threshold'', ustr ''BLOCK_NONE'')],
     [(ustr ''category'', ustr ''HARM_CATEGORY_DANGEROUS_CONTENT''), (ustr ''threshold'', ustr ''BLOCK_NONE'')]]"

definition separator :: ustring where
  "separator = ustr ''###''"

definition placeholder :: ustring where
  "placeholder = ustr ''-''"

text \<open>The two emoji prefixes of the column names: U+26A0 U+FE0F and U+1F4DD.\<close>

definition warn :: ustring where
  "warn = [0x26A0, 0xFE0F]"

definition memo :: ustring where
  "memo = [0x1F4DD]"

text \<open>The 17 keys of the returned mapping, in the order the source writes them.\<close>

definition field_keys :: "ustring list" where
  "field_keys =
    [ustr ''CSM Name'', ustr ''Customer Name'', ustr ''Lead Intent'',
     warn @ ustr '' Brand Trust'', memo @ ustr '' Brand Detail'',
     warn @ ustr '' Value'', memo @ ustr '' Value Detail'',
     warn @ ustr '' ROI'', memo @ ustr '' ROI Detail'',
     warn @ ustr '' Spiritual'', memo @ ustr '' Spiritual Detail'',
     warn @ ustr '' Technical'', memo @ ustr '' Technical Detail'',
     ustr ''Urgency: 6L+2L Offer'', ustr ''Urgency: Price Movement'',
     ustr ''Family/Spouse Objections'', ustr ''Pitch Flow Adherence'']"

text \<open>\<open>while len(parts) < 17: parts.append("-")\<close>\<close>

function pad_parts :: "ustring list \<Rightarrow> ustring list" where
  "pad_parts parts =
     (if length parts < 17 then pad_parts (parts @ [placeholder]) else parts)"
  by pat_completeness auto
termination
  by (relation "measure (\<lambda>parts. 17 - length parts)") auto

declare pad_parts.simps [simp del]

text \<open>
  The dictionary display of the source. Reading \<open>parts[i]\<close> beyond the end raises
  \<open>IndexError\<close>, which the bare \<open>except\<close> around it turns into \<open>None\<close>.
\<close>

definition build_record :: "ustring list \<Rightarrow> pydict option" where
  "build_record parts =
     (if length parts < 17 then None
      else Some
       [(ustr ''CSM Name'', parts ! 0), (ustr ''Customer Name'', parts ! 1),
        (ustr ''Lead Intent'', parts ! 2),
        (warn @ ustr '' Brand Trust'', parts ! 3), (memo @ ustr '' Brand Detail'', parts ! 4),
        (warn @ ustr '' Value'', parts ! 5), (memo @ ustr '' Value Detail'', parts ! 6),
        (warn @ ustr '' ROI'', parts ! 7), (memo @ ustr '' ROI Detail'', parts ! 8),
        (warn @ ustr '' Spiritual'', parts ! 9), (memo @ ustr '' Spiritual Detail'', parts ! 10),
        (warn @ ustr '' Technical'', parts ! 11), (memo @ ustr '' Technical Detail'', parts ! 12),
        (ustr ''Urgency: 6L+2L Offer'', parts ! 13), (ustr ''Urgency: Price Movement'', parts ! 14),
        (ustr ''Family/Spouse Objections'', parts ! 15), (ustr ''Pitch Flow Adherence'', parts ! 16)])"

definition analyze_call :: "gen_model \<Rightarrow> ustring \<Rightarrow> pydict option" where
  "analyze_call model text =
     (let prompt = audit_prompt @ take 30000 text in
      case model prompt (Some safe) of
        Inl e \<Rightarrow> None
      | Inr response_text \<Rightarrow>
          (let raw = strip response_text;
               parts = map strip (str_split separator raw)
           in build_record (pad_parts parts)))"

section \<open>Summary Generator\<close>

text \<open>
  A pandas \<open>DataFrame\<close>: the column labels and the rows, each row holding one cell per
  column.
\<close>

record 'v dataframe =
  columns :: "ustring list"
  rows :: "'v list list"

fun index_of :: "'a \<Rightarrow> 'a list \<Rightarrow> nat option" where
  "index_of k [] = None"
| "index_of k (x # xs) = (if x = k then Some 0 else map_option Suc (index_of k xs))"

text \<open>
  \<open>df[df[key] == value]\<close>: the rows whose cell in column \<open>key\<close> equals \<open>value\<close>;
  \<open>KeyError\<close> when there is no such column.
\<close>

definition filter_eq :: "'v dataframe \<Rightarrow> ustring \<Rightarrow> 'v \<Rightarrow> exn + 'v dataframe" where
  "filter_eq df key v =
     (case index_of key (columns df) of
        None \<Rightarrow> Inl (PyException (ustr ''KeyError''))
      | Some i \<Rightarrow> Inr (df\<lparr>rows := filter (\<lambda>r. r ! i = v) (rows df)\<rparr>))"

text \<open>\<open>df[cols]\<close>: the listed columns, in the listed order; \<open>KeyError\<close> when one is missing.\<close>

definition select_columns :: "'v dataframe \<Rightarrow> ustring list \<Rightarrow> exn + 'v dataframe" where
  "select_columns df cols =
     (if \<exists>c \<in> set cols. index_of c (columns df) = None
      then Inl (PyException (ustr ''KeyError''))
      else Inr \<lparr>columns = cols,
                rows = map (\<lambda>r. map (\<lambda>c. r ! the (index_of c (columns df))) cols) (rows df)\<rparr>)"

text \<open>What \<open>json.loads\<close> can return.\<close>

datatype json =
    JNull
  | JBool bool
  | JNumber ustring   \<comment> \<open>a number, by its literal\<close>
  | JString ustring
  | JArray "json list"
  | JObject "(ustring \<times> json) list"

definition summary_cols :: "ustring list" where
  "summary_cols =
     [ustr ''Customer Name'', ustr ''Lead Intent'', memo @ ustr '' Brand Detail'',
      memo @ ustr '' Value Detail'', ustr ''Urgency: 6L+2L Offer'']"

text \<open>The f-string of lines 110 to 118, with \<open>csm_name\<close> and \<open>csv_data\<close> put in.\<close>

definition summary_prompt :: "ustring \<Rightarrow> ustring \<Rightarrow> ustring" where
  \<open>summary_prompt csm_name csv_data =
     str_join (ustr ''\<newline>'')
      [[],
       ustr ''    You are a Sales Trainer. Summarize performance for CSM: '' @ csm_name @ ustr ''.'',
       ustr ''    Data: '' @ csv_data,
       ustr ''    '',
       ustr ''    **Style:** "Strengths" and "Areas of Improvement" must use format:'',
       ustr ''    **Category Name:** Description (citing Customer Names).'',
       ustr ''    '',
       ustr ''    **Return JSON:** { "CSM Name": "'' @ csm_name @
         ustr ''", "Strengths": "...", "Areas of Improvement": "..." }'',
       ustr ''    '']\<close>

definition error_summary :: "ustring \<Rightarrow> json" where
  "error_summary csm_name =
     JObject [(ustr ''CSM Name'', JString csm_name), (ustr ''Strengths'', JString (ustr ''Error'')),
              (ustr ''Areas of Improvement'', JString (ustr ''Error''))]"

text \<open>
  The shape the prompt asks the model for: a mapping with exactly the keys \<open>CSM Name\<close>,
  \<open>Strengths\<close> and \<open>Areas of Improvement\<close>. The source never tests a parsed reply
  for it.
\<close>

definition summary_keys :: "ustring list" where
  "summary_keys = [ustr ''CSM Name'', ustr ''Strengths'', ustr ''Areas of Improvement'']"

fun three_key_mapping :: "json \<Rightarrow> bool" where
  "three_key_mapping (JObject kvs) \<longleftrightarrow> distinct (map fst kvs) \<and> set (map fst kvs) = set summary_keys"
| "three_key_mapping _ \<longleftrightarrow> False"

text \<open>
  \<open>response.text.replace("```json", "").replace("```", "").strip()\<close>
\<close>

definition clean_reply :: "ustring \<Rightarrow> ustring" where
  "clean_reply response_text =
     strip (str_replace (ustr ''```'') [] (str_replace (ustr ''```json'') [] response_text))"

text \<open>
  Lines 106 to 118, the statements before the \<open>try\<close>: the rows of the salesperson,
  the five columns, their CSV text, the prompt. \<open>to_csv\<close> (pandas) is outside the
  repository and is a parameter. Nothing guards these statements: a \<open>KeyError\<close> for a
  missing column reaches the caller (\<open>Inl\<close>).
\<close>

definition build_summary_prompt ::
  "(ustring dataframe \<Rightarrow> ustring) \<Rightarrow> ustring dataframe \<Rightarrow> ustring \<Rightarrow> exn + ustring" where
  "build_summary_prompt to_csv df csm_name =
     (case filter_eq df (ustr ''CSM Name'') csm_name of
        Inl e \<Rightarrow> Inl e
      | Inr csm_df \<Rightarrow>
          (case select_columns csm_df summary_cols of
             Inl e \<Rightarrow> Inl e
           | Inr sub_df \<Rightarrow>
               (let csv_data = to_csv sub_df
                in Inr (summary_prompt csm_name csv_data))))"

text \<open>
  \<open>generate_csm_summary\<close>. \<open>json_loads\<close> (the standard library) is a parameter.
  Inside the \<open>try\<close> the bare \<open>except\<close> turns every failure, of the request or of
  the parser, into the sentinel record.
\<close>

definition generate_csm_summary ::
  "(ustring dataframe \<Rightarrow> ustring) \<Rightarrow> (ustring \<Rightarrow> exn + json) \<Rightarrow> gen_model \<Rightarrow>
   ustring dataframe \<Rightarrow> ustring \<Rightarrow> exn + json" where
  "generate_csm_summary to_csv json_loads model df csm_name =
     (case build_summary_prompt to_csv df csm_name of
        Inl e \<Rightarrow> Inl e
      | Inr prompt \<Rightarrow>
          (case model prompt None of
             Inl e \<Rightarrow> Inr (error_summary csm_name)
           | Inr response_text \<Rightarrow>
               (case json_loads (clean_reply response_text) of
                  Inl e \<Rightarrow> Inr (error_summary csm_name)
                | Inr summary \<Rightarrow> Inr summary)))"

section \<open>Report Builder\<close>

text \<open>
  The openpyxl objects the styling loop touches. \<open>PatternFill\<close> and \<open>Font\<close> carry the
  attributes the source sets; a cell has a fill and a font; a worksheet knows the letters of
  its columns (what \<open>col[0].column_letter\<close> yields for each \<open>col\<close> of \<open>ws.columns\<close>,
  in order), the width of each column (\<open>None\<close> while unset) and its cells by coordinate
  (column letter and row number, so \<open>ws["B1"]\<close> is \<open>cells ws (''B'', 1)\<close>).
\<close>

record pattern_fill =
  start_color :: "ustring option"
  end_color :: "ustring option"
  fill_type :: "ustring option"

record font =
  color :: "ustring option"
  bold :: bool

record 'v cell =
  cvalue :: 'v
  cfill :: pattern_fill
  cfont :: font

record 'v worksheet =
  column_letters :: "ustring list"
  column_width :: "ustring \<Rightarrow> nat option"
  cells :: "ustring \<times> nat \<Rightarrow> 'v cell"

definition header_fill :: pattern_fill where
  "header_fill =
     \<lparr>start_color = Some (ustr ''1F497D''), end_color = Some (ustr ''1F497D''),
      fill_type = Some (ustr ''solid'')\<rparr>"

definition header_font :: font where
  "header_font = \<lparr>color = Some (ustr ''FFFFFF''), bold = True\<rparr>"

text \<open>The body of \<open>for col in ws.columns\<close> for the column with letter \<open>col_letter\<close>.\<close>

definition style_column :: "ustring \<Rightarrow> 'v worksheet \<Rightarrow> ustring \<Rightarrow> 'v worksheet" where
  "style_column sheet ws col_letter =
     (let width = (if sheet = ustr ''CSM Summary'' \<and> col_letter \<in> set [ustr ''B'', ustr ''C'']
                   then 80 else 40);
          ws = ws\<lparr>column_width := (column_width ws)(col_letter := Some width)\<rparr>;
          ws = ws\<lparr>cells := (cells ws)((col_letter, 1) := (cells ws (col_letter, 1))\<lparr>cfill := header_fill\<rparr>)\<rparr>;
          ws = ws\<lparr>cells := (cells ws)((col_letter, 1) := (cells ws (col_letter, 1))\<lparr>cfont := header_font\<rparr>)\<rparr>
      in ws)"

definition style_sheet :: "ustring \<Rightarrow> 'v worksheet \<Rightarrow> 'v worksheet" where
  "style_sheet sheet ws = fold (\<lambda>col_letter ws. style_column sheet ws col_letter) (column_letters ws) ws"

text \<open>
  \<open>df.to_excel(writer, sheet_name=..., index=False)\<close>: pandas writes the frame into a new
  worksheet and registers it in \<open>writer.sheets\<close> under the sheet name. What pandas puts
  into the worksheet is outside the repository: \<open>write_frame\<close> is a parameter. The workbook is
  the association list \<open>writer.sheets\<close>, in the order the sheets were created.
\<close>

type_synonym 'v workbook = "(ustring \<times> 'v worksheet) list"

definition df_to_excel ::
  "('df \<Rightarrow> 'v worksheet) \<Rightarrow> 'df \<Rightarrow> 'v workbook \<Rightarrow> ustring \<Rightarrow> 'v workbook" where
  "df_to_excel write_frame df writer sheet_name = AList.update sheet_name (write_frame df) writer"

text \<open>
  \<open>to_excel\<close>. The returned bytes are openpyxl's serialisation of the workbook; the model
  returns the workbook itself.
\<close>

definition to_excel :: "('df \<Rightarrow> 'v worksheet) \<Rightarrow> 'df \<Rightarrow> 'df option \<Rightarrow> 'v workbook" where
  "to_excel write_frame df_analysis df_summary =
     (let writer = df_to_excel write_frame df_analysis [] (ustr ''Call Analysis'');
          writer = (case df_summary of
                      None \<Rightarrow> writer
                    | Some df \<Rightarrow> df_to_excel write_frame df writer (ustr ''CSM Summary''))
      in map (\<lambda>(sheet, ws). (sheet, style_sheet sheet ws)) writer)"

section \<open>Orchestrator: the per-file loop\<close>

text \<open>
  An uploaded file, and the state the loop of lines 165 to 186 works on: the \<open>results\<close>
  list, the number of generation requests sent so far, and the pauses taken
  (\<open>time.sleep\<close>, in seconds). The service may answer each request differently, so the
  model handle is indexed by the number of the request: \<open>model n\<close> is its behaviour at
  request \<open>n\<close>.
\<close>

record uploaded_file =
  file_name :: ustring
  getvalue :: bytes

record run_state =
  results :: "pydict list"
  requests :: nat
  pauses :: "nat list"

text \<open>\<open>if data\<close>: \<open>None\<close> and the empty dictionary are false.\<close>

fun truthy_dict :: "pydict option \<Rightarrow> bool" where
  "truthy_dict None = False"
| "truthy_dict (Some d) = (d \<noteq> [])"

text \<open>
  \<open>for attempt in range(3)\<close>, over the attempts still to make: a truthy result gets
  the file name, is appended and ends the loop (\<open>break\<close>); otherwise the loop pauses two
  seconds and goes on.
\<close>

fun retry_loop :: "(nat \<Rightarrow> gen_model) \<Rightarrow> ustring \<Rightarrow> ustring \<Rightarrow> nat list \<Rightarrow> run_state \<Rightarrow> run_state" where
  "retry_loop model text fname [] st = st"
| "retry_loop model text fname (attempt # attempts) st =
     (let data = analyze_call (model (requests st)) text;
          st = st\<lparr>requests := requests st + 1\<rparr>
      in if truthy_dict data
         then st\<lparr>results := results st @ [AList.update (ustr ''File Name'') fname (the data)]\<rparr>
         else retry_loop model text fname attempts (st\<lparr>pauses := pauses st @ [2]\<rparr>))"

text \<open>
  The body of \<open>for idx, uploaded_file in enumerate(uploaded_files)\<close> (the progress
  display left out). An exception that \<open>extract_text_from_pdf\<close> lets through ends the run
  (\<open>Inl\<close>).
\<close>

definition process_file ::
  "(bytes \<Rightarrow> exn + 'page list) \<Rightarrow> ('page \<Rightarrow> exn + ustring) \<Rightarrow> (nat \<Rightarrow> gen_model) \<Rightarrow>
   uploaded_file \<Rightarrow> run_state \<Rightarrow> exn + run_state" where
  "process_file PdfReader extract_text model uploaded_file st =
     (case extract_text_from_pdf PdfReader extract_text (getvalue uploaded_file) of
        Inl e \<Rightarrow> Inl e
      | Inr text \<Rightarrow>
          (let st = (if strip text \<noteq> []
                     then retry_loop model text (file_name uploaded_file) [0, 1, 2] st
                     else st)
           in Inr (st\<lparr>pauses := pauses st @ [1]\<rparr>)))"

section \<open>Properties of the string operations\<close>

lemma split_from_match:
  "sep \<noteq> [] \<Longrightarrow> prefix sep (c # cs) \<Longrightarrow>
   split_from sep cur (c # cs) = cur # split_from sep [] (drop (length sep - 1) cs)"
  by simp

lemma split_from_nomatch:
  "\<not> (sep \<noteq> [] \<and> prefix sep (c # cs)) \<Longrightarrow>
   split_from sep cur (c # cs) = split_from sep (cur @ [c]) cs"
  by (simp del: de_Morgan_conj)

lemma split_from_nonempty: "split_from sep cur s \<noteq> []"
  by (induction s arbitrary: cur) auto

lemma split_from_cur: "split_from sep cur s = (cur @ hd (split_from sep [] s)) # tl (split_from sep [] s)"
proof (induction s arbitrary: cur)
  case Nil
  then show ?case by simp
next
  case (Cons c cs)
  show ?case
  proof (cases "sep \<noteq> [] \<and> prefix sep (c # cs)")
    case True
    then show ?thesis by simp
  next
    case False
    then show ?thesis using Cons[of "cur @ [c]"] Cons[of "[c]"] by simp
  qed
qed

lemma split_from_short:
  "length s < length sep \<Longrightarrow> split_from sep cur s = [cur @ s]"
proof (induction s arbitrary: cur)
  case Nil
  then show ?case by simp
next
  case (Cons c s)
  have "\<not> (sep \<noteq> [] \<and> prefix sep (c # s))"
    using Cons.prems by (auto dest: prefix_length_le)
  then have "split_from sep cur (c # s) = split_from sep (cur @ [c]) s"
    by (rule split_from_nomatch)
  with Cons show ?case by simp
qed

lemma prefix_append_foreign:
  assumes "sep \<noteq> []" "\<forall>c\<in>set sep. \<not> P c" "\<forall>c\<in>set w. P c"
  shows "prefix sep (t @ w) \<longleftrightarrow> prefix sep t"
proof
  assume "prefix sep (t @ w)"
  then consider "prefix sep t" | us where "sep = t @ us" "prefix us w"
    by (auto simp: prefix_append)
  then show "prefix sep t"
  proof cases
    case 1
    then show ?thesis .
  next
    case 2
    show ?thesis
    proof (cases us)
      case Nil
      with 2 show ?thesis by simp
    next
      case (Cons u us')
      with 2 have "u \<in> set sep" "u \<in> set w" by (auto simp: prefix_def)
      with assms show ?thesis by blast
    qed
  qed
next
  assume "prefix sep t"
  then show "prefix sep (t @ w)" by (rule prefix_prefix)
qed

lemma prefix_append_new:
  assumes "prefix sep (s @ t)" "\<not> prefix sep s"
  shows "length s < length sep"
proof -
  from assms obtain us where "sep = s @ us" by (auto simp: prefix_append)
  with assms(2) show ?thesis by (cases us) auto
qed

lemma split_from_all_foreign:
  "\<forall>c\<in>set sep. \<not> P c \<Longrightarrow> \<forall>c\<in>set w. P c \<Longrightarrow> split_from sep cur w = [cur @ w]"
proof (induction w arbitrary: cur)
  case Nil
  then show ?case by simp
next
  case (Cons c w)
  have "\<not> (sep \<noteq> [] \<and> prefix sep (c # w))"
  proof
    assume "sep \<noteq> [] \<and> prefix sep (c # w)"
    then have "c \<in> set sep" by (cases sep) auto
    with Cons.prems show False by auto
  qed
  with Cons show ?case by simp
qed

lemma split_from_prepend_foreign:
  "\<forall>c\<in>set sep. \<not> P c \<Longrightarrow> \<forall>c\<in>set w. P c \<Longrightarrow>
   split_from sep cur (w @ t) = split_from sep (cur @ w) t"
proof (induction w arbitrary: cur)
  case Nil
  then show ?case by simp
next
  case (Cons c w)
  have "\<not> (sep \<noteq> [] \<and> prefix sep (c # (w @ t)))"
  proof
    assume "sep \<noteq> [] \<and> prefix sep (c # (w @ t))"
    then have "c \<in> set sep" by (cases sep) auto
    with Cons.prems show False by auto
  qed
  then have "split_from sep cur (c # (w @ t)) = split_from sep (cur @ [c]) (w @ t)"
    by (rule split_from_nomatch)
  with Cons show ?case by simp
qed

lemma split_from_append_foreign:
  "\<forall>c\<in>set sep. \<not> P c \<Longrightarrow> \<forall>c\<in>set w. P c \<Longrightarrow>
   split_from sep cur (t @ w) =
     butlast (split_from sep cur t) @ [last (split_from sep cur t) @ w]"
proof (induction sep cur t rule: split_from.induct)
  case (1 sep cur)
  then show ?case using split_from_all_foreign[of sep P w cur] by simp
next
  case (2 sep cur c cs)
  show ?case
  proof (cases "sep \<noteq> [] \<and> prefix sep (c # cs)")
    case True
    then have le: "length sep - 1 \<le> length cs"
      by (auto dest: prefix_length_le)
    from True have m: "prefix sep (c # (cs @ w))" using prefix_prefix[of sep "c # cs" w] by simp
    have "split_from sep cur ((c # cs) @ w) = cur # split_from sep [] (drop (length sep - 1) cs @ w)"
      using split_from_match[OF _ m, of cur] True le by simp
    moreover have "split_from sep cur (c # cs) = cur # split_from sep [] (drop (length sep - 1) cs)"
      using split_from_match[of sep c cs cur] True by blast
    ultimately show ?thesis
      using 2(1)[OF True 2(3,4)] split_from_nonempty[of sep "[]" "drop (length sep - 1) cs"]
      by simp
  next
    case False
    then have "\<not> (sep \<noteq> [] \<and> prefix sep (c # (cs @ w)))"
      using prefix_append_foreign[OF _ 2(3,4), of "c # cs"] by auto
    then have "split_from sep cur ((c # cs) @ w) = split_from sep (cur @ [c]) (cs @ w)"
      using split_from_nomatch[of sep c "cs @ w" cur] by simp
    moreover have "split_from sep cur (c # cs) = split_from sep (cur @ [c]) cs"
      using split_from_nomatch[OF False] .
    ultimately show ?thesis using 2(2)[OF False 2(3,4)] by simp
  qed
qed

lemma take_split_from_append:
  "k < length (split_from sep cur s) \<Longrightarrow>
   take k (split_from sep cur (s @ t)) = take k (split_from sep cur s)"
proof (induction sep cur s arbitrary: k rule: split_from.induct)
  case (1 sep cur)
  then show ?case by simp
next
  case (2 sep cur c cs)
  show ?case
  proof (cases "sep \<noteq> [] \<and> prefix sep (c # cs)")
    case True
    then have le: "length sep - 1 \<le> length cs"
      by (auto dest: prefix_length_le)
    from True have m: "prefix sep (c # (cs @ t))" using prefix_prefix[of sep "c # cs" t] by simp
    have a: "split_from sep cur ((c # cs) @ t) = cur # split_from sep [] (drop (length sep - 1) cs @ t)"
      using split_from_match[OF _ m, of cur] True le by simp
    have b: "split_from sep cur (c # cs) = cur # split_from sep [] (drop (length sep - 1) cs)"
      using split_from_match[of sep c cs cur] True by blast
    show ?thesis
    proof (cases k)
      case 0
      then show ?thesis by simp
    next
      case (Suc k')
      with 2(3) b have "k' < length (split_from sep [] (drop (length sep - 1) cs))" by simp
      from 2(1)[OF True this] a b Suc show ?thesis by simp
    qed
  next
    case False
    then have b: "split_from sep cur (c # cs) = split_from sep (cur @ [c]) cs"
      by (rule split_from_nomatch)
    show ?thesis
    proof (cases "sep \<noteq> [] \<and> prefix sep (c # (cs @ t))")
      case True
      with False have "length (c # cs) < length sep"
        using prefix_append_new[of sep "c # cs" t] by auto
      then have "split_from sep cur (c # cs) = [cur @ c # cs]" by (rule split_from_short)
      with 2(3) have "k = 0" by simp
      then show ?thesis by simp
    next
      case nm: False
      then have "split_from sep cur ((c # cs) @ t) = split_from sep (cur @ [c]) (cs @ t)"
        using split_from_nomatch[of sep c "cs @ t" cur] by simp
      with b 2(2)[OF False, of k] 2(3) show ?thesis by simp
    qed
  qed
qed

lemma rstrip_decomp: "\<exists>w. s = rstrip s @ w \<and> (\<forall>c\<in>set w. isspace c)"
proof -
  have "rev s = takeWhile isspace (rev s) @ dropWhile isspace (rev s)" by simp
  then have "s = rev (dropWhile isspace (rev s)) @ rev (takeWhile isspace (rev s))"
    by (metis rev_append rev_rev_ident)
  moreover have "\<forall>c\<in>set (rev (takeWhile isspace (rev s))). isspace c"
    by (auto dest: set_takeWhileD)
  ultimately show ?thesis unfolding rstrip_def by blast
qed

lemma lstrip_decomp: "\<exists>w. s = w @ lstrip s \<and> (\<forall>c\<in>set w. isspace c)"
proof -
  have "s = takeWhile isspace s @ dropWhile isspace s" by simp
  moreover have "\<forall>c\<in>set (takeWhile isspace s). isspace c"
    by (auto dest: set_takeWhileD)
  ultimately show ?thesis unfolding lstrip_def by blast
qed

lemma lstrip_prepend: "\<forall>c\<in>set w. isspace c \<Longrightarrow> lstrip (w @ x) = lstrip x"
  by (simp add: lstrip_def dropWhile_append)

lemma rstrip_append_space: "\<forall>c\<in>set w. isspace c \<Longrightarrow> rstrip (x @ w) = rstrip x"
  by (simp add: rstrip_def dropWhile_append)

lemma strip_prepend: "\<forall>c\<in>set w. isspace c \<Longrightarrow> strip (w @ x) = strip x"
  by (simp add: strip_def lstrip_prepend)

lemma strip_append_space:
  assumes "\<forall>c\<in>set w. isspace c"
  shows "strip (x @ w) = strip x"
proof (cases "\<forall>c\<in>set x. isspace c")
  case True
  with assms have "lstrip (x @ w) = []" "lstrip x = []"
    by (auto simp: lstrip_def)
  then show ?thesis by (simp add: strip_def)
next
  case False
  then have "lstrip (x @ w) = lstrip x @ w"
    by (auto simp: lstrip_def dropWhile_append)
  then show ?thesis using assms by (simp add: strip_def rstrip_append_space)
qed

lemma separator_no_space: "\<forall>c\<in>set separator. \<not> isspace c"
  by (simp add: separator_def ustr_def isspace_def)

lemma map_strip_split_strip:
  "map strip (str_split separator (strip s)) = map strip (str_split separator s)"
proof -
  obtain w1 where w1: "s = w1 @ lstrip s" "\<forall>c\<in>set w1. isspace c"
    using lstrip_decomp by blast
  obtain w2 where w2: "lstrip s = strip s @ w2" "\<forall>c\<in>set w2. isspace c"
    using rstrip_decomp[of "lstrip s"] by (auto simp: strip_def)
  let ?S = "split_from separator [] (strip s)"
  let ?X = "split_from separator w1 (strip s)"
  have X: "?X = (w1 @ hd ?S) # tl ?S"
    using split_from_cur[of separator w1 "strip s"] .
  have S: "?S = hd ?S # tl ?S"
    using split_from_nonempty[of separator "[]" "strip s"] by simp
  have "map strip ?X = map strip (hd ?S # tl ?S)"
    by (subst X) (simp add: strip_prepend[OF w1(2)])
  with S have XS: "map strip ?X = map strip ?S" by simp
  have "split_from separator [] s = split_from separator w1 (strip s @ w2)"
    using split_from_prepend_foreign[OF separator_no_space w1(2), of "[]" "lstrip s"] w1(1) w2(1)
    by simp
  also have "\<dots> = butlast ?X @ [last ?X @ w2]"
    by (rule split_from_append_foreign[OF separator_no_space w2(2)])
  finally have "map strip (split_from separator [] s) = map strip (butlast ?X) @ [strip (last ?X)]"
    by (simp add: strip_append_space[OF w2(2)])
  also have "\<dots> = map strip (butlast ?X @ [last ?X])" by simp
  also have "butlast ?X @ [last ?X] = ?X"
    using split_from_nonempty[of separator w1 "strip s"] by simp
  finally show ?thesis using XS by (simp add: str_split_def)
qed

section \<open>Properties of the Text Extractor\<close>

lemma extract_pages_all_ok:
  "map extract_text pages = map Inr texts \<Longrightarrow>
   extract_pages extract_text acc pages = Inr (acc @ concat (map (\<lambda>t. t @ ustr ''\<newline>'') texts))"
proof (induction pages arbitrary: acc texts)
  case Nil
  then show ?case by simp
next
  case (Cons page pages)
  then obtain t ts where ts: "texts = t # ts" "extract_text page = Inr t"
    "map extract_text pages = map Inr ts"
    by (cases texts) auto
  with Cons.IH[of ts "acc @ t @ ustr ''\<newline>''"] show ?case by simp
qed

lemma extract_pages_Inl_source:
  "extract_pages extract_text acc pages = Inl e \<Longrightarrow> \<exists>page\<in>set pages. extract_text page = Inl e"
  by (induction pages arbitrary: acc) (auto split: sum.splits)

lemma extract_pages_fails:
  "\<exists>page\<in>set pages. \<exists>e. extract_text page = Inl e \<Longrightarrow>
   \<exists>e. extract_pages extract_text acc pages = Inl e"
proof (induction pages arbitrary: acc)
  case Nil
  then show ?case by simp
next
  case (Cons page pages)
  show ?case
  proof (cases "extract_text page")
    case (Inl e)
    then show ?thesis by simp
  next
    case (Inr t)
    with Cons.prems have "\<exists>page\<in>set pages. \<exists>e. extract_text page = Inl e" by auto
    from Cons.IH[OF this, of "acc @ t @ ustr ''\<newline>''"] Inr show ?thesis by simp
  qed
qed

text \<open>
  Claim C4. When the parser fails on the document or on one of its pages, and its failures
  are exceptions in the sense of \<open>except Exception\<close>, the extractor returns the empty
  string and lets nothing through: the text of the pages read before the failure is dropped.
\<close>

theorem extract_text_from_pdf_failure:
  assumes "\<forall>e. PdfReader file_bytes = Inl e \<longrightarrow> is_Exception e"
    and "\<forall>pages. PdfReader file_bytes = Inr pages \<longrightarrow>
           (\<forall>page\<in>set pages. \<forall>e. extract_text page = Inl e \<longrightarrow> is_Exception e)"
    and "(\<exists>e. PdfReader file_bytes = Inl e) \<or>
         (\<exists>pages. PdfReader file_bytes = Inr pages \<and> (\<exists>page\<in>set pages. \<exists>e. extract_text page = Inl e))"
  shows "extract_text_from_pdf PdfReader extract_text file_bytes = Inr []"
proof (cases "PdfReader file_bytes")
  case (Inl e)
  moreover from assms(1) Inl have "is_Exception e" by blast
  ultimately show ?thesis by (simp add: extract_text_from_pdf_def)
next
  case (Inr pages)
  from assms(3) Inr have "\<exists>page\<in>set pages. \<exists>e. extract_text page = Inl e" by auto
  then obtain e where e: "extract_pages extract_text [] pages = Inl e"
    using extract_pages_fails[of pages extract_text "[]"] by blast
  then obtain page where "page \<in> set pages" "extract_text page = Inl e"
    using extract_pages_Inl_source[of extract_text "[]" pages e] by blast
  with assms(2) Inr have "is_Exception e" by blast
  with Inr e show ?thesis by (simp add: extract_text_from_pdf_def)
qed

theorem extract_text_from_pdf_failure_witness:
  "extract_text_from_pdf (\<lambda>b. Inl (PyException (ustr ''PdfReadError''))) (\<lambda>page::ustring. Inr page)
       [0x6E, 0x6F, 0x74, 0x20, 0x70, 0x64, 0x66] = Inr [] \<and>
   extract_text_from_pdf (\<lambda>b. Inr [ustr ''page one'', [], ustr ''page three''])
       (\<lambda>page. if page = [] then Inl (PyException (ustr ''TypeError'')) else Inr page)
       [0x25, 0x50, 0x44, 0x46] = Inr []"
proof -
  have "extract_text_from_pdf (\<lambda>b. Inl (PyException (ustr ''PdfReadError''))) (\<lambda>page::ustring. Inr page)
       [0x6E, 0x6F, 0x74, 0x20, 0x70, 0x64, 0x66] = Inr []"
    by (rule extract_text_from_pdf_failure) simp_all
  moreover have "extract_text_from_pdf (\<lambda>b. Inr [ustr ''page one'', [], ustr ''page three''])
       (\<lambda>page. if page = [] then Inl (PyException (ustr ''TypeError'')) else Inr page)
       [0x25, 0x50, 0x44, 0x46] = Inr []"
    by (rule extract_text_from_pdf_failure) (simp_all add: ustr_def)
  ultimately show ?thesis by blast
qed

text \<open>
  Claim C5. When the document opens and every page yields its text, the extractor returns
  the texts of the pages in page order, each followed by a newline; with at least one page
  the result is not empty, and the text of page \<open>i\<close> stands before the text of page
  \<open>i + 1\<close>.
\<close>

theorem extract_text_from_pdf_pages_in_order:
  assumes "PdfReader file_bytes = Inr pages"
    and "map extract_text pages = map Inr texts"
  shows "extract_text_from_pdf PdfReader extract_text file_bytes =
           Inr (concat (map (\<lambda>t. t @ ustr ''\<newline>'') texts)) \<and>
         (pages \<noteq> [] \<longrightarrow> concat (map (\<lambda>t. t @ ustr ''\<newline>'') texts) \<noteq> []) \<and>
         (\<forall>i. Suc i < length texts \<longrightarrow>
            (\<exists>before after. concat (map (\<lambda>t. t @ ustr ''\<newline>'') texts) =
               before @ (texts ! i @ ustr ''\<newline>'') @ (texts ! Suc i @ ustr ''\<newline>'') @ after))"
proof (intro conjI allI impI)
  show "extract_text_from_pdf PdfReader extract_text file_bytes =
           Inr (concat (map (\<lambda>t. t @ ustr ''\<newline>'') texts))"
    using assms extract_pages_all_ok[of extract_text pages texts "[]"]
    by (simp add: extract_text_from_pdf_def)
next
  assume "pages \<noteq> []"
  with assms(2) have "texts \<noteq> []" by auto
  then show "concat (map (\<lambda>t. t @ ustr ''\<newline>'') texts) \<noteq> []"
    by (cases texts) (simp_all add: ustr_def)
next
  fix i assume i: "Suc i < length texts"
  define a where "a = take i texts"
  define c where "c = drop (Suc (Suc i)) texts"
  have "drop (Suc i) texts = texts ! Suc i # c"
    using i Cons_nth_drop_Suc[of "Suc i" texts] by (simp add: c_def)
  moreover have "texts = a @ texts ! i # drop (Suc i) texts"
    using i id_take_nth_drop[of i texts] by (simp add: a_def)
  ultimately have eq: "texts = a @ texts ! i # texts ! Suc i # c" by simp
  have "concat (map (\<lambda>t. t @ ustr ''\<newline>'') texts) =
      concat (map (\<lambda>t. t @ ustr ''\<newline>'') a) @ (texts ! i @ ustr ''\<newline>'') @
      (texts ! Suc i @ ustr ''\<newline>'') @ concat (map (\<lambda>t. t @ ustr ''\<newline>'') c)"
    using arg_cong[OF eq, of "\<lambda>xs. concat (map (\<lambda>t. t @ ustr ''\<newline>'') xs)"] by simp
  then show "\<exists>before after. concat (map (\<lambda>t. t @ ustr ''\<newline>'') texts) =
               before @ (texts ! i @ ustr ''\<newline>'') @ (texts ! Suc i @ ustr ''\<newline>'') @ after"
    by blast
qed

theorem extract_text_from_pdf_pages_in_order_witness:
  "extract_text_from_pdf (\<lambda>b. Inr [ustr ''Hello'', ustr ''World'']) (\<lambda>page. Inr page) [0x25, 0x50, 0x44, 0x46]
     = Inr (ustr ''Hello\<newline>World\<newline>'')"
  using extract_text_from_pdf_pages_in_order[of "\<lambda>b. Inr [ustr ''Hello'', ustr ''World'']"
      "[0x25, 0x50, 0x44, 0x46]" "[ustr ''Hello'', ustr ''World'']" "\<lambda>page. Inr page"
      "[ustr ''Hello'', ustr ''World'']"]
  by (simp add: ustr_def)

section \<open>Properties of the Model Selector\<close>

lemma find_hd_filter: "find P xs = (if \<exists>x\<in>set xs. P x then Some (hd (filter P xs)) else None)"
  by (induction xs) auto

lemma is_flash_nonempty: "is_flash lower m \<Longrightarrow> m \<noteq> []"
  by (auto simp: is_flash_def ustr_def)

lemma is_pro_nonempty: "is_pro lower m \<Longrightarrow> m \<noteq> []"
  by (auto simp: is_pro_def ustr_def)

lemma hd_filter_holds: "\<exists>x\<in>set xs. P x \<Longrightarrow> P (hd (filter P xs))"
  by (induction xs) auto

text \<open>
  Claim C3. The identifiers the listing service yields are resource names, none of them
  the empty string. For every such list the selector returns the first identifier, in list
  order, whose lower-cased form contains \<open>flash\<close> and which contains \<open>1.5\<close>; else
  the first whose lower-cased form contains \<open>pro\<close> and which contains \<open>1.5\<close>; else
  the first identifier of the list; it returns \<open>None\<close> exactly when the list is
  empty. A failure of the listing request (a refused credential) gives \<open>None\<close> as well.
\<close>

theorem select_model_priority:
  assumes "\<forall>m\<in>set all_models. m \<noteq> []"
  shows "select_model lower all_models =
     (if \<exists>m\<in>set all_models. is_flash lower m then Some (hd (filter (is_flash lower) all_models))
      else if \<exists>m\<in>set all_models. is_pro lower m then Some (hd (filter (is_pro lower) all_models))
      else if all_models \<noteq> [] then Some (hd all_models)
      else None) \<and>
   (select_model lower all_models = None \<longleftrightarrow> all_models = []) \<and>
   (list_models api_key = Inl e \<longrightarrow> get_gemini_model lower list_models api_key = None) \<and>
   (list_models api_key = Inr models \<longrightarrow>
      get_gemini_model lower list_models api_key =
        select_model lower
          (map name (filter (\<lambda>m. ustr ''generateContent'' \<in> set (supported_generation_methods m)) models)))"
proof -
  have first: "hd all_models \<noteq> []" if "all_models \<noteq> []"
    using that assms by (cases all_models) auto
  have sel: "select_model lower all_models =
     (if \<exists>m\<in>set all_models. is_flash lower m then Some (hd (filter (is_flash lower) all_models))
      else if \<exists>m\<in>set all_models. is_pro lower m then Some (hd (filter (is_pro lower) all_models))
      else if all_models \<noteq> [] then Some (hd all_models)
      else None)"
  proof (cases "\<exists>m\<in>set all_models. is_flash lower m")
    case True
    then have "hd (filter (is_flash lower) all_models) \<noteq> []"
      using hd_filter_holds[of all_models "is_flash lower"] is_flash_nonempty by blast
    with True show ?thesis by (simp add: select_model_def find_hd_filter)
  next
    case nf: False
    show ?thesis
    proof (cases "\<exists>m\<in>set all_models. is_pro lower m")
      case True
      then have "hd (filter (is_pro lower) all_models) \<noteq> []"
        using hd_filter_holds[of all_models "is_pro lower"] is_pro_nonempty by blast
      with nf True show ?thesis by (simp add: select_model_def find_hd_filter)
    next
      case np: False
      show ?thesis
      proof (cases "all_models = []")
        case True
        then show ?thesis by (simp add: select_model_def)
      next
        case False
        with nf np first show ?thesis by (simp add: select_model_def find_hd_filter)
      qed
    qed
  qed
  have none: "select_model lower all_models = None \<longleftrightarrow> all_models = []"
  proof
    assume n: "select_model lower all_models = None"
    show "all_models = []"
    proof (rule ccontr)
      assume "all_models \<noteq> []"
      with sel have "select_model lower all_models \<noteq> None" by (simp split: if_splits)
      with n show False by contradiction
    qed
  next
    assume "all_models = []"
    then show "select_model lower all_models = None" by (simp add: select_model_def)
  qed
  have "list_models api_key = Inl e \<longrightarrow> get_gemini_model lower list_models api_key = None"
    by (simp add: get_gemini_model_def)
  moreover have "list_models api_key = Inr models \<longrightarrow>
      get_gemini_model lower list_models api_key =
        select_model lower
          (map name (filter (\<lambda>m. ustr ''generateContent'' \<in> set (supported_generation_methods m)) models))"
    by (simp add: get_gemini_model_def)
  ultimately show ?thesis using sel none by blast
qed

theorem select_model_priority_witness:
  "select_model ascii_lower
     [ustr ''models/gemini-1.0-pro'', ustr ''models/gemini-1.5-flash-001'', ustr ''models/gemini-1.5-pro-002'']
     = Some (ustr ''models/gemini-1.5-flash-001'') \<and>
   select_model ascii_lower [ustr ''models/gemini-1.5-pro-002'', ustr ''models/Gemini-1.5-FLASH'']
     = Some (ustr ''models/Gemini-1.5-FLASH'') \<and>
   select_model ascii_lower [ustr ''models/gemini-1.0-pro'', ustr ''models/Gemini-1.5-PRO'']
     = Some (ustr ''models/Gemini-1.5-PRO'') \<and>
   select_model ascii_lower [ustr ''models/gemini-1.0-pro''] = Some (ustr ''models/gemini-1.0-pro'') \<and>
   select_model ascii_lower [] = None"
proof -
  have f: "\<not> is_flash ascii_lower (ustr ''models/gemini-1.0-pro'')"
    "is_flash ascii_lower (ustr ''models/gemini-1.5-flash-001'')"
    "is_flash ascii_lower (ustr ''models/Gemini-1.5-FLASH'')"
    "\<not> is_flash ascii_lower (ustr ''models/Gemini-1.5-PRO'')"
    "\<not> is_flash ascii_lower (ustr ''models/gemini-1.5-pro-002'')"
    by (simp_all add: is_flash_def ascii_lower_def ustr_def)
  have p: "\<not> is_pro ascii_lower (ustr ''models/gemini-1.0-pro'')"
    "is_pro ascii_lower (ustr ''models/Gemini-1.5-PRO'')"
    by (simp_all add: is_pro_def ascii_lower_def ustr_def)
  have n: "ustr ''models/gemini-1.0-pro'' \<noteq> []" "ustr ''models/gemini-1.5-flash-001'' \<noteq> []"
    "ustr ''models/gemini-1.5-pro-002'' \<noteq> []" "ustr ''models/Gemini-1.5-PRO'' \<noteq> []"
    "ustr ''models/Gemini-1.5-FLASH'' \<noteq> []"
    by (simp_all add: ustr_def)
  have "select_model ascii_lower
     [ustr ''models/gemini-1.0-pro'', ustr ''models/gemini-1.5-flash-001'', ustr ''models/gemini-1.5-pro-002'']
     = Some (ustr ''models/gemini-1.5-flash-001'')"
    using select_model_priority[where lower = ascii_lower and all_models =
      "[ustr ''models/gemini-1.0-pro'', ustr ''models/gemini-1.5-flash-001'', ustr ''models/gemini-1.5-pro-002'']"]
    by (simp add: f n)
  moreover have "select_model ascii_lower [ustr ''models/gemini-1.5-pro-002'', ustr ''models/Gemini-1.5-FLASH'']
     = Some (ustr ''models/Gemini-1.5-FLASH'')"
    using select_model_priority[where lower = ascii_lower and all_models =
      "[ustr ''models/gemini-1.5-pro-002'', ustr ''models/Gemini-1.5-FLASH'']"]
    by (simp add: f n)
  moreover have "select_model ascii_lower [ustr ''models/gemini-1.0-pro'', ustr ''models/Gemini-1.5-PRO'']
     = Some (ustr ''models/Gemini-1.5-PRO'')"
    using select_model_priority[where lower = ascii_lower and all_models =
      "[ustr ''models/gemini-1.0-pro'', ustr ''models/Gemini-1.5-PRO'']"]
    by (simp add: f p n)
  moreover have "select_model ascii_lower [ustr ''models/gemini-1.0-pro''] = Some (ustr ''models/gemini-1.0-pro'')"
    using select_model_priority[where lower = ascii_lower and all_models = "[ustr ''models/gemini-1.0-pro'']"]
    by (simp add: f p n)
  moreover have "select_model ascii_lower [] = None"
    using select_model_priority[where lower = ascii_lower and all_models = "[]"] by simp
  ultimately show ?thesis by blast
qed

section \<open>Properties of the Call Analyzer\<close>

lemma pad_parts_eq: "pad_parts ps = ps @ replicate (17 - length ps) placeholder"
proof (induction ps rule: pad_parts.induct)
  case (1 parts)
  show ?case
  proof (cases "length parts < 17")
    case True
    then have "17 - length parts = Suc (17 - length (parts @ [placeholder]))" by simp
    with True 1 show ?thesis
      by (subst pad_parts.simps) (simp add: replicate_app_Cons_same)
  next
    case False
    then show ?thesis by (subst pad_parts.simps) simp
  qed
qed

lemma length_pad_parts: "17 \<le> length (pad_parts ps)"
  by (simp add: pad_parts_eq)

lemma distinct_field_keys: "distinct field_keys"
  by (simp add: field_keys_def ustr_def warn_def memo_def)

lemma length_field_keys: "length field_keys = 17"
  by (simp add: field_keys_def)

lemma take_17_nth:
  assumes "17 \<le> length ps"
  shows "take 17 ps = [ps ! 0, ps ! 1, ps ! 2, ps ! 3, ps ! 4, ps ! 5, ps ! 6, ps ! 7, ps ! 8,
     ps ! 9, ps ! 10, ps ! 11, ps ! 12, ps ! 13, ps ! 14, ps ! 15, ps ! 16]"
proof -
  have "take 17 ps = map (nth ps) [0..<17]"
    using assms by (intro nth_equalityI) simp_all
  also have "[0..<17] = [0, 1, 2, 3, 4, 5, 6, 7, 8, 9, 10, 11, 12, 13, 14, 15, 16::nat]"
    by (simp add: upt_rec)
  finally show ?thesis by simp
qed

lemma build_record_zip:
  "17 \<le> length ps \<Longrightarrow> build_record ps = Some (zip field_keys (take 17 ps))"
  by (simp add: take_17_nth) (simp add: build_record_def field_keys_def)

lemma analyze_call_reply:
  assumes "model (audit_prompt @ take 30000 text) (Some safe) = Inr reply"
  shows "analyze_call model text =
    Some (zip field_keys (take 17 (pad_parts (map strip (str_split separator reply)))))"
  using assms length_pad_parts
  by (simp add: analyze_call_def build_record_zip map_strip_split_strip)

lemma analyze_call_cases:
  "analyze_call model text = None \<or> (\<exists>d. analyze_call model text = Some d \<and> map fst d = field_keys)"
proof (cases "model (audit_prompt @ take 30000 text) (Some safe)")
  case (Inl e)
  then show ?thesis by (simp add: analyze_call_def)
next
  case (Inr reply)
  have "length (take 17 (pad_parts (map strip (str_split separator reply)))) = 17"
    using length_pad_parts[of "map strip (str_split separator reply)"] by simp
  then show ?thesis
    using analyze_call_reply[of model "text" reply] Inr
    by (simp add: length_field_keys)
qed

text \<open>
  Claim C1. A reply whose split on \<open>###\<close> has fewer than 17 segments (the empty reply
  has one, empty, segment) still gives a mapping with all 17 keys: the keys of the segments
  present hold the stripped segments, every later key holds the placeholder \<open>-\<close>. With
  10 segments the 11th to 17th keys are the placeholder.
\<close>

theorem analyze_call_pads_short_reply:
  assumes "model (audit_prompt @ take 30000 text) (Some safe) = Inr reply"
    and "length (str_split separator reply) < 17"
  shows "\<exists>d. analyze_call model text = Some d \<and> map fst d = field_keys \<and>
    (\<forall>i<17. map_of d (field_keys ! i) =
       Some (if i < length (str_split separator reply)
             then strip (str_split separator reply ! i) else placeholder))"
proof -
  let ?segs = "str_split separator reply"
  let ?vals = "map strip ?segs @ replicate (17 - length ?segs) placeholder"
  from assms(2) have len: "length ?vals = 17" by simp
  have "pad_parts (map strip ?segs) = ?vals"
    by (simp add: pad_parts_eq)
  with len have call: "analyze_call model text = Some (zip field_keys ?vals)"
    using analyze_call_reply[of model "text" reply] assms(1) by (simp)
  have keys: "map fst (zip field_keys ?vals) = field_keys"
    using len by (simp add: length_field_keys)
  have "map_of (zip field_keys ?vals) (field_keys ! i) =
      Some (if i < length ?segs then strip (?segs ! i) else placeholder)"
    if "i < 17" for i
  proof -
    have "map_of (zip field_keys ?vals) (field_keys ! i) = Some (?vals ! i)"
      using that len by (intro map_of_zip_nth) (simp_all add: length_field_keys distinct_field_keys)
    also have "?vals ! i = (if i < length ?segs then strip (?segs ! i) else placeholder)"
      using that assms(2) by (simp add: nth_append)
    finally show ?thesis .
  qed
  with call keys show ?thesis by blast
qed

theorem analyze_call_pads_short_reply_witness:
  "(\<exists>d. analyze_call (\<lambda>p s. Inr (ustr ''Asha###Ravi###Mixed###Yes### trusted ###No###-###Yes###8%###No''))
          (ustr ''hello'') = Some d \<and>
     map fst d = field_keys \<and>
     map_of d (field_keys ! 4) = Some (ustr ''trusted'') \<and>
     map_of d (field_keys ! 9) = Some (ustr ''No'') \<and>
     map_of d (field_keys ! 10) = Some (ustr ''-'') \<and>
     map_of d (field_keys ! 16) = Some (ustr ''-'')) \<and>
   (\<exists>d. analyze_call (\<lambda>p s. Inr []) (ustr ''hello'') = Some d \<and>
     map fst d = field_keys \<and>
     map_of d (field_keys ! 0) = Some [] \<and>
     map_of d (field_keys ! 1) = Some (ustr ''-''))"
proof -
  let ?r = "ustr ''Asha###Ravi###Mixed###Yes### trusted ###No###-###Yes###8%###No''"
  have s: "str_split separator ?r =
      map ustr [''Asha'', ''Ravi'', ''Mixed'', ''Yes'', '' trusted '', ''No'', ''-'', ''Yes'', ''8%'', ''No'']"
    by (simp add: str_split_def separator_def ustr_def)
  have t: "strip (ustr '' trusted '') = ustr ''trusted''" "strip (ustr ''No'') = ustr ''No''"
    by (simp_all add: strip_def lstrip_def rstrip_def ustr_def isspace_def)
  from analyze_call_pads_short_reply[of "\<lambda>p s. Inr ?r" "ustr ''hello''" ?r]
  obtain d where d: "analyze_call (\<lambda>p s. Inr ?r) (ustr ''hello'') = Some d" "map fst d = field_keys"
     "\<forall>i<17. map_of d (field_keys ! i) =
       Some (if i < length (str_split separator ?r)
             then strip (str_split separator ?r ! i) else placeholder)"
    unfolding s by auto
  have "map_of d (field_keys ! 4) = Some (ustr ''trusted'')"
    using d(3)[rule_format, of 4] unfolding s by (simp add: t)
  moreover have "map_of d (field_keys ! 9) = Some (ustr ''No'')"
    using d(3)[rule_format, of 9] unfolding s by (simp add: t)
  moreover have "map_of d (field_keys ! 10) = Some (ustr ''-'')"
    using d(3)[rule_format, of 10] unfolding s by (simp add: placeholder_def)
  moreover have "map_of d (field_keys ! 16) = Some (ustr ''-'')"
    using d(3)[rule_format, of 16] unfolding s by (simp add: placeholder_def)
  ultimately have ten: "\<exists>d. analyze_call (\<lambda>p s. Inr ?r) (ustr ''hello'') = Some d \<and>
     map fst d = field_keys \<and>
     map_of d (field_keys ! 4) = Some (ustr ''trusted'') \<and>
     map_of d (field_keys ! 9) = Some (ustr ''No'') \<and>
     map_of d (field_keys ! 10) = Some (ustr ''-'') \<and>
     map_of d (field_keys ! 16) = Some (ustr ''-'')"
    using d(1,2) by blast
  have e: "str_split separator ([] :: ustring) = [[]]"
    by (simp add: str_split_def)
  from analyze_call_pads_short_reply[of "\<lambda>p s. Inr []" "ustr ''hello''" "[]"]
  obtain d' where d': "analyze_call (\<lambda>p s. Inr []) (ustr ''hello'') = Some d'" "map fst d' = field_keys"
     "\<forall>i<17. map_of d' (field_keys ! i) =
       Some (if i < length (str_split separator ([] :: ustring))
             then strip (str_split separator [] ! i) else placeholder)"
    unfolding e by auto
  have "map_of d' (field_keys ! 0) = Some []"
    using d'(3)[rule_format, of 0] unfolding e by (simp add: strip_def lstrip_def rstrip_def)
  moreover have "map_of d' (field_keys ! 1) = Some (ustr ''-'')"
    using d'(3)[rule_format, of 1] unfolding e by (simp add: placeholder_def)
  ultimately have "\<exists>d. analyze_call (\<lambda>p s. Inr []) (ustr ''hello'') = Some d \<and>
     map fst d = field_keys \<and>
     map_of d (field_keys ! 0) = Some [] \<and>
     map_of d (field_keys ! 1) = Some (ustr ''-'')"
    using d'(1,2) by blast
  with ten show ?thesis by blast
qed

lemma pad_parts_long: "17 \<le> length ps \<Longrightarrow> pad_parts ps = ps"
  by (subst pad_parts.simps) simp

text \<open>
  Claim C2. A reply whose split on \<open>###\<close> has more than 17 segments fills the 17 keys
  from exactly its first 17 segments (each stripped), and whatever is appended to such a
  reply, further delimiters or further segments, leaves the mapping as it is.
\<close>

theorem analyze_call_uses_first_17:
  assumes "model (audit_prompt @ take 30000 text) (Some safe) = Inr reply"
    and "17 < length (str_split separator reply)"
  shows "\<exists>d. analyze_call model text = Some d \<and> map fst d = field_keys \<and>
    (\<forall>i<17. map_of d (field_keys ! i) = Some (strip (str_split separator reply ! i))) \<and>
    (\<forall>model' extra. model' (audit_prompt @ take 30000 text) (Some safe) = Inr (reply @ extra)
        \<longrightarrow> analyze_call model' text = Some d)"
proof -
  let ?segs = "str_split separator reply"
  let ?vals = "take 17 (map strip ?segs)"
  let ?d = "zip field_keys ?vals"
  from assms(2) have len: "length ?vals = 17" by simp
  from assms(2) have "pad_parts (map strip ?segs) = map strip ?segs"
    by (intro pad_parts_long) simp
  then have call: "analyze_call model text = Some ?d"
    using analyze_call_reply[of model "text" reply] assms(1) by (simp)
  have keys: "map fst ?d = field_keys"
    using len by (simp add: length_field_keys)
  have vals: "map_of ?d (field_keys ! i) = Some (strip (?segs ! i))" if "i < 17" for i
  proof -
    have "map_of ?d (field_keys ! i) = Some (?vals ! i)"
      using that len by (intro map_of_zip_nth) (simp_all add: length_field_keys distinct_field_keys)
    also have "?vals ! i = strip (?segs ! i)"
      using that assms(2) by simp
    finally show ?thesis .
  qed
  have stable: "analyze_call model' text = Some ?d"
    if m': "model' (audit_prompt @ take 30000 text) (Some safe) = Inr (reply @ extra)"
    for model' extra
  proof -
    let ?segs' = "str_split separator (reply @ extra)"
    have tk: "take 17 ?segs' = take 17 ?segs"
      using take_split_from_append[of 17 separator "[]" reply extra] assms(2)
      by (simp add: str_split_def)
    have "length (take 17 ?segs') = 17" using assms(2) by (simp only: tk) simp
    then have long: "17 \<le> length ?segs'" by simp
    then have "pad_parts (map strip ?segs') = map strip ?segs'"
      by (intro pad_parts_long) simp
    then have "analyze_call model' text = Some (zip field_keys (take 17 (map strip ?segs')))"
      using analyze_call_reply[of model' "text" "reply @ extra"] m' by (simp)
    also have "take 17 (map strip ?segs') = ?vals"
      by (simp only: take_map tk)
    finally show ?thesis .
  qed
  from call keys vals stable show ?thesis by blast
qed

theorem analyze_call_uses_first_17_witness:
  "17 < length (str_split separator (ustr ''a###b###c###d###e###f###g###h###i###j###k###l###m###n###o###p### q ###r'')) \<and>
   (\<exists>d. analyze_call (\<lambda>p s. Inr (ustr ''a###b###c###d###e###f###g###h###i###j###k###l###m###n###o###p### q ###r'')) (ustr ''hello'') = Some d \<and>
        analyze_call (\<lambda>p s. Inr (ustr ''a###b###c###d###e###f###g###h###i###j###k###l###m###n###o###p### q ###r'' @ ustr ''###zz###'')) (ustr ''hello'') = Some d \<and>
        map_of d (field_keys ! 16) = Some (ustr ''q''))"
proof -
  let ?r = "ustr ''a###b###c###d###e###f###g###h###i###j###k###l###m###n###o###p### q ###r''"
  have s: "str_split separator ?r =
      map ustr [''a'', ''b'', ''c'', ''d'', ''e'', ''f'', ''g'', ''h'', ''i'', ''j'', ''k'', ''l'', ''m'', ''n'',
                ''o'', ''p'', '' q '', ''r'']"
    by (simp add: str_split_def separator_def ustr_def)
  have t: "strip (ustr '' q '') = ustr ''q''"
    by (simp add: strip_def lstrip_def rstrip_def ustr_def isspace_def)
  have n: "17 < length (str_split separator ?r)" unfolding s by simp
  from analyze_call_uses_first_17[of "\<lambda>p s. Inr ?r" "ustr ''hello''" ?r, OF _ n]
  obtain d where d: "analyze_call (\<lambda>p s. Inr ?r) (ustr ''hello'') = Some d"
    "\<forall>i<17. map_of d (field_keys ! i) = Some (strip (str_split separator ?r ! i))"
    "\<forall>model' extra. model' (audit_prompt @ take 30000 (ustr ''hello'')) (Some safe) = Inr (?r @ extra)
        \<longrightarrow> analyze_call model' (ustr ''hello'') = Some d"
    by auto
  have "map_of d (field_keys ! 16) = Some (ustr ''q'')"
    using d(2)[rule_format, of 16] unfolding s by (simp add: t)
  moreover have "analyze_call (\<lambda>p s. Inr (?r @ ustr ''###zz###'')) (ustr ''hello'') = Some d"
    using d(3)[rule_format, of "\<lambda>p s. Inr (?r @ ustr ''###zz###'')" "ustr ''###zz###''"] by simp
  ultimately show ?thesis using n d(1) by blast
qed

text \<open>
  Claim C6. When the generation request or the reading of its reply raises, whatever the
  exception, \<open>analyze_call\<close> returns \<open>None\<close>; and what it returns is never a partial
  record: it is \<open>None\<close> or a mapping with exactly the 17 keys.
\<close>

theorem analyze_call_none_on_exception:
  "(model (audit_prompt @ take 30000 text) (Some safe) = Inl e \<longrightarrow> analyze_call model text = None) \<and>
   (\<forall>d. analyze_call model text = Some d \<longrightarrow> map fst d = field_keys)"
  using analyze_call_cases[of model "text"] by (auto simp: analyze_call_def)

theorem analyze_call_none_on_exception_witness:
  "analyze_call (\<lambda>p s. Inl (PyException (ustr ''ResourceExhausted''))) (ustr ''hello'') = None \<and>
   analyze_call (\<lambda>p s. Inl KeyboardInterrupt) (ustr ''hello'') = None \<and>
   (\<exists>d. analyze_call (\<lambda>p s. Inr (ustr ''Asha###Ravi'')) (ustr ''hello'') = Some d \<and> map fst d = field_keys)"
proof -
  have "analyze_call (\<lambda>p s. Inl (PyException (ustr ''ResourceExhausted''))) (ustr ''hello'') = None"
    using analyze_call_none_on_exception[of "\<lambda>p s. Inl (PyException (ustr ''ResourceExhausted''))"
        "ustr ''hello''" "PyException (ustr ''ResourceExhausted'')"] by simp
  moreover have "analyze_call (\<lambda>p s. Inl KeyboardInterrupt) (ustr ''hello'') = None"
    using analyze_call_none_on_exception[of "\<lambda>p s. Inl KeyboardInterrupt" "ustr ''hello''" KeyboardInterrupt]
    by simp
  moreover have "\<exists>d. analyze_call (\<lambda>p s. Inr (ustr ''Asha###Ravi'')) (ustr ''hello'') = Some d"
    using analyze_call_reply[of "\<lambda>p s. Inr (ustr ''Asha###Ravi'')" "ustr ''hello''" "ustr ''Asha###Ravi''"]
    by simp
  then have "\<exists>d. analyze_call (\<lambda>p s. Inr (ustr ''Asha###Ravi'')) (ustr ''hello'') = Some d \<and> map fst d = field_keys"
    using analyze_call_none_on_exception[of "\<lambda>p s. Inr (ustr ''Asha###Ravi'')" "ustr ''hello''"] by blast
  ultimately show ?thesis by blast
qed

lemma strip_clean:
  "strip s = [] \<or> (\<not> isspace (hd (strip s)) \<and> \<not> isspace (last (strip s)))"
proof (cases "strip s = []")
  case True
  then show ?thesis by simp
next
  case False
  let ?y = "lstrip s"
  from False have ne: "dropWhile isspace (rev ?y) \<noteq> []" by (simp add: strip_def rstrip_def)
  have "last (strip s) = hd (dropWhile isspace (rev ?y))"
    using ne by (simp add: strip_def rstrip_def last_rev)
  then have l: "\<not> isspace (last (strip s))" using hd_dropWhile[OF ne] by simp
  obtain w where w: "?y = strip s @ w" using rstrip_decomp[of ?y] by (auto simp: strip_def)
  with False have "hd (strip s) = hd ?y" by (metis hd_append2)
  moreover from w False have "dropWhile isspace s \<noteq> []" by (auto simp: lstrip_def)
  ultimately have "\<not> isspace (hd (strip s))"
    using hd_dropWhile[of isspace s] by (simp add: lstrip_def)
  with l show ?thesis by simp
qed

text \<open>
  Claim C10. Every value of the mapping \<open>analyze_call\<close> returns is free of white space
  at both ends: it is a stripped segment of the reply or the placeholder, so it is empty or
  its first and its last character are not white space.
\<close>

theorem analyze_call_values_stripped:
  assumes "analyze_call model text = Some d" and "(k, v) \<in> set d"
  shows "v = [] \<or> (\<not> isspace (hd v) \<and> \<not> isspace (last v))"
proof (cases "model (audit_prompt @ take 30000 text) (Some safe)")
  case (Inl e)
  with assms(1) show ?thesis by (simp add: analyze_call_def)
next
  case (Inr reply)
  let ?segs = "str_split separator reply"
  have "d = zip field_keys (take 17 (map strip ?segs @ replicate (17 - length ?segs) placeholder))"
    using analyze_call_reply[of model "text" reply] Inr assms(1)
    by (simp add: pad_parts_eq)
  with assms(2) have "v \<in> set (take 17 (map strip ?segs @ replicate (17 - length ?segs) placeholder))"
    by (auto dest: set_zip_rightD)
  then have "v \<in> set (map strip ?segs @ replicate (17 - length ?segs) placeholder)"
    by (rule in_set_takeD)
  then consider s where "v = strip s" | "v = placeholder" by auto
  then show ?thesis
  proof cases
    case 1
    then show ?thesis using strip_clean[of s] by simp
  next
    case 2
    then show ?thesis by (simp add: placeholder_def ustr_def isspace_def)
  qed
qed

theorem analyze_call_values_stripped_witness:
  "\<exists>d. analyze_call (\<lambda>p s. Inr (ustr ''  Asha ### Ravi  '')) (ustr ''hello'') = Some d \<and>
     (ustr ''CSM Name'', ustr ''Asha'') \<in> set d \<and>
     (ustr ''Asha'' = [] \<or> (\<not> isspace (hd (ustr ''Asha'')) \<and> \<not> isspace (last (ustr ''Asha''))))"
proof -
  let ?r = "ustr ''  Asha ### Ravi  ''"
  let ?d = "zip field_keys (take 17 (pad_parts (map strip (str_split separator ?r))))"
  have d: "analyze_call (\<lambda>p s. Inr ?r) (ustr ''hello'') = Some ?d"
    using analyze_call_reply[of "\<lambda>p s. Inr ?r" "ustr ''hello''" ?r] by simp
  have s: "str_split separator ?r = [ustr ''  Asha '', ustr '' Ravi  '']"
    by (simp add: str_split_def separator_def ustr_def)
  have t: "strip (ustr ''  Asha '') = ustr ''Asha''"
    by (simp add: strip_def lstrip_def rstrip_def ustr_def isspace_def)
  have m: "(ustr ''CSM Name'', ustr ''Asha'') \<in> set ?d"
    unfolding s by (simp add: t pad_parts_eq field_keys_def)
  from analyze_call_values_stripped[OF d m] d m show ?thesis by blast
qed

section \<open>Properties of the Summary Generator\<close>

lemma index_of_None: "index_of k xs = None \<longleftrightarrow> k \<notin> set xs"
  by (induction xs) auto

lemma build_summary_prompt_ok:
  assumes "ustr ''CSM Name'' \<in> set (columns df)" and "set summary_cols \<subseteq> set (columns df)"
  shows "\<exists>prompt. build_summary_prompt to_csv df csm_name = Inr prompt"
proof -
  from assms(1) obtain i where i: "index_of (ustr ''CSM Name'') (columns df) = Some i"
    using index_of_None[of "ustr ''CSM Name''" "columns df"] by (cases "index_of (ustr ''CSM Name'') (columns df)") auto
  let ?csm_df = "df\<lparr>rows := filter (\<lambda>r. r ! i = csm_name) (rows df)\<rparr>"
  have f: "filter_eq df (ustr ''CSM Name'') csm_name = Inr ?csm_df"
    using i by (simp add: filter_eq_def)
  have "\<not> (\<exists>c\<in>set summary_cols. index_of c (columns ?csm_df) = None)"
    using assms(2) by (auto simp: index_of_None)
  then have "\<exists>sub_df. select_columns ?csm_df summary_cols = Inr sub_df"
    unfolding select_columns_def by (simp del: index_of_None)
  with f show ?thesis by (auto simp: build_summary_prompt_def)
qed

text \<open>
  Claim C7, as the code has it. For a frame that has the columns the prompt is built from,
  a summary request always returns a value and raises nothing. A reply that parses as JSON,
  once the fence markers are removed and the text is stripped, gives the parsed value as it
  is, whatever its shape: the three-key mapping when the reply holds that object, and any
  other JSON value otherwise. A reply that does not parse, or a request that raises, gives
  the sentinel mapping of \<open>CSM Name\<close> to the requested name and of \<open>Strengths\<close> and
  \<open>Areas of Improvement\<close> to \<open>Error\<close>.
\<close>

theorem generate_csm_summary_outcomes:
  assumes "ustr ''CSM Name'' \<in> set (columns df)" and "set summary_cols \<subseteq> set (columns df)"
  shows "\<exists>prompt. build_summary_prompt to_csv df csm_name = Inr prompt \<and>
    (\<forall>reply summary. model prompt None = Inr reply \<and> json_loads (clean_reply reply) = Inr summary \<longrightarrow>
       generate_csm_summary to_csv json_loads model df csm_name = Inr summary) \<and>
    (\<forall>reply e. model prompt None = Inr reply \<and> json_loads (clean_reply reply) = Inl e \<longrightarrow>
       generate_csm_summary to_csv json_loads model df csm_name =
         Inr (JObject [(ustr ''CSM Name'', JString csm_name),
                       (ustr ''Strengths'', JString (ustr ''Error'')),
                       (ustr ''Areas of Improvement'', JString (ustr ''Error''))])) \<and>
    (\<forall>e. model prompt None = Inl e \<longrightarrow>
       generate_csm_summary to_csv json_loads model df csm_name =
         Inr (JObject [(ustr ''CSM Name'', JString csm_name),
                       (ustr ''Strengths'', JString (ustr ''Error'')),
                       (ustr ''Areas of Improvement'', JString (ustr ''Error''))])) \<and>
    (\<exists>summary. generate_csm_summary to_csv json_loads model df csm_name = Inr summary)"
proof -
  obtain prompt where p: "build_summary_prompt to_csv df csm_name = Inr prompt"
    using build_summary_prompt_ok[OF assms] by blast
  have "\<exists>summary. generate_csm_summary to_csv json_loads model df csm_name = Inr summary"
    using p by (auto simp: generate_csm_summary_def split: sum.splits)
  with p show ?thesis
    by (auto simp: generate_csm_summary_def error_summary_def)
qed

theorem generate_csm_summary_outcomes_witness:
  \<open>(let df = \<lparr>columns = ustr ''CSM Name'' # summary_cols,
                rows = [map ustr [''Asha'', ''Ravi'', ''Mixed'', ''trusted'', ''fair'', ''Yes'']]\<rparr>;
        to_csv = (\<lambda>d. str_join (ustr '','') (columns d));
        json_loads = (\<lambda>s. if s = ustr ''{"CSM Name": "Asha", "Strengths": "Clear", "Areas of Improvement": "Pace"}''
                           then Inr (JObject [(ustr ''CSM Name'', JString (ustr ''Asha'')),
                                              (ustr ''Strengths'', JString (ustr ''Clear'')),
                                              (ustr ''Areas of Improvement'', JString (ustr ''Pace''))])
                           else Inl (PyException (ustr ''JSONDecodeError'')))
    in generate_csm_summary to_csv json_loads
         (\<lambda>p s. Inr (ustr ''```json\<newline>{"CSM Name": "Asha", "Strengths": "Clear", "Areas of Improvement": "Pace"}\<newline>```''))
         df (ustr ''Asha'')
       = Inr (JObject [(ustr ''CSM Name'', JString (ustr ''Asha'')),
                       (ustr ''Strengths'', JString (ustr ''Clear'')),
                       (ustr ''Areas of Improvement'', JString (ustr ''Pace''))]) \<and>
       three_key_mapping (JObject [(ustr ''CSM Name'', JString (ustr ''Asha'')),
                                   (ustr ''Strengths'', JString (ustr ''Clear'')),
                                   (ustr ''Areas of Improvement'', JString (ustr ''Pace''))]) \<and>
       generate_csm_summary to_csv json_loads (\<lambda>p s. Inr (ustr ''Sorry, no data.'')) df (ustr ''Asha'')
       = Inr (JObject [(ustr ''CSM Name'', JString (ustr ''Asha'')),
                       (ustr ''Strengths'', JString (ustr ''Error'')),
                       (ustr ''Areas of Improvement'', JString (ustr ''Error''))]) \<and>
       generate_csm_summary to_csv json_loads (\<lambda>p s. Inl (PyException (ustr ''ResourceExhausted''))) df (ustr ''Asha'')
       = Inr (JObject [(ustr ''CSM Name'', JString (ustr ''Asha'')),
                       (ustr ''Strengths'', JString (ustr ''Error'')),
                       (ustr ''Areas of Improvement'', JString (ustr ''Error''))]))\<close>
proof -
  let ?df = "\<lparr>columns = ustr ''CSM Name'' # summary_cols,
                rows = [map ustr [''Asha'', ''Ravi'', ''Mixed'', ''trusted'', ''fair'', ''Yes'']]\<rparr>"
  let ?to_csv = "\<lambda>d :: ustring dataframe. str_join (ustr '','') (columns d)"
  let ?js = \<open>ustr ''{"CSM Name": "Asha", "Strengths": "Clear", "Areas of Improvement": "Pace"}''\<close>
  let ?v = "JObject [(ustr ''CSM Name'', JString (ustr ''Asha'')),
                     (ustr ''Strengths'', JString (ustr ''Clear'')),
                     (ustr ''Areas of Improvement'', JString (ustr ''Pace''))]"
  let ?loads = "\<lambda>s. if s = ?js then Inr ?v else Inl (PyException (ustr ''JSONDecodeError''))"
  let ?fenced = \<open>ustr ''```json\<newline>{"CSM Name": "Asha", "Strengths": "Clear", "Areas of Improvement": "Pace"}\<newline>```''\<close>
  have c1: "ustr ''CSM Name'' \<in> set (columns ?df)" by simp
  have c2: "set summary_cols \<subseteq> set (columns ?df)" by auto
  have cl: "clean_reply ?fenced = ?js"
    by (simp add: clean_reply_def strip_def lstrip_def rstrip_def isspace_def ustr_def)
  have cl2: "clean_reply (ustr ''Sorry, no data.'') \<noteq> ?js"
    by (simp add: clean_reply_def strip_def lstrip_def rstrip_def isspace_def ustr_def)
  have a: "generate_csm_summary ?to_csv ?loads (\<lambda>p s. Inr ?fenced) ?df (ustr ''Asha'') = Inr ?v"
    using generate_csm_summary_outcomes[OF c1 c2, of ?to_csv "ustr ''Asha''" "\<lambda>p s. Inr ?fenced" ?loads] cl
    by auto
  let ?err = "JObject [(ustr ''CSM Name'', JString (ustr ''Asha'')),
                       (ustr ''Strengths'', JString (ustr ''Error'')),
                       (ustr ''Areas of Improvement'', JString (ustr ''Error''))]"
  have k: "three_key_mapping ?v"
    by (simp add: summary_keys_def ustr_def)
  have b: "generate_csm_summary ?to_csv ?loads (\<lambda>p s. Inr (ustr ''Sorry, no data.'')) ?df (ustr ''Asha'')
      = Inr ?err"
    using generate_csm_summary_outcomes[OF c1 c2, of ?to_csv "ustr ''Asha''" "\<lambda>p s. Inr (ustr ''Sorry, no data.'')" ?loads] cl2
    by auto
  have c: "generate_csm_summary ?to_csv ?loads (\<lambda>p s. Inl (PyException (ustr ''ResourceExhausted''))) ?df (ustr ''Asha'')
      = Inr ?err"
    using generate_csm_summary_outcomes[OF c1 c2, of ?to_csv "ustr ''Asha''"
        "\<lambda>p s. Inl (PyException (ustr ''ResourceExhausted''))" ?loads]
    by auto
  from a k b c show ?thesis by (simp only: Let_def)
qed

text \<open>
  The claim as the specification words it, a reply that is valid JSON gives the parsed
  three-key mapping, fails for a reply that is valid JSON of another shape: the reply
  \<open>42\<close> parses to a number, and the number is what is returned.
\<close>

theorem generate_csm_summary_shape_counterexample:
  "generate_csm_summary (\<lambda>d. str_join (ustr '','') (columns d))
     (\<lambda>s. if s = ustr ''42'' then Inr (JNumber (ustr ''42'')) else Inl (PyException (ustr ''JSONDecodeError'')))
     (\<lambda>p s. Inr (ustr ''42''))
     \<lparr>columns = ustr ''CSM Name'' # summary_cols,
      rows = [map ustr [''Asha'', ''Ravi'', ''Mixed'', ''trusted'', ''fair'', ''Yes'']]\<rparr>
     (ustr ''Asha'') = Inr (JNumber (ustr ''42'')) \<and>
   \<not> three_key_mapping (JNumber (ustr ''42''))"
proof -
  let ?df = "\<lparr>columns = ustr ''CSM Name'' # summary_cols,
              rows = [map ustr [''Asha'', ''Ravi'', ''Mixed'', ''trusted'', ''fair'', ''Yes'']]\<rparr>"
  have c1: "ustr ''CSM Name'' \<in> set (columns ?df)" by simp
  have c2: "set summary_cols \<subseteq> set (columns ?df)" by auto
  obtain prompt where "build_summary_prompt (\<lambda>d. str_join (ustr '','') (columns d)) ?df (ustr ''Asha'') = Inr prompt"
    using build_summary_prompt_ok[OF c1 c2] by blast
  moreover have "clean_reply (ustr ''42'') = ustr ''42''"
    by (simp add: clean_reply_def strip_def lstrip_def rstrip_def isspace_def ustr_def)
  ultimately show ?thesis
    by (simp add: generate_csm_summary_def)
qed

section \<open>Properties of the Report Builder\<close>

lemma column_letters_style_column [simp]:
  "column_letters (style_column sheet ws l) = column_letters ws"
  by (simp add: style_column_def Let_def)

lemma column_letters_fold_style:
  "column_letters (fold (\<lambda>l ws. style_column sheet ws l) ls ws) = column_letters ws"
  by (induction ls arbitrary: ws) simp_all

lemma column_letters_style_sheet: "column_letters (style_sheet sheet ws) = column_letters ws"
  by (simp add: style_sheet_def column_letters_fold_style)

lemma fold_style_column:
  assumes "l \<in> set ls"
  shows "column_width (fold (\<lambda>l ws. style_column sheet ws l) ls ws) l =
           Some (if sheet = ustr ''CSM Summary'' \<and> (l = ustr ''B'' \<or> l = ustr ''C'') then 80 else 40) \<and>
         cfill (cells (fold (\<lambda>l ws. style_column sheet ws l) ls ws) (l, 1)) = header_fill \<and>
         cfont (cells (fold (\<lambda>l ws. style_column sheet ws l) ls ws) (l, 1)) = header_font"
  using assms
proof (induction ls rule: rev_induct)
  case Nil
  then show ?case by simp
next
  case (snoc x xs)
  show ?case
  proof (cases "l = x")
    case True
    then show ?thesis by (simp add: style_column_def Let_def)
  next
    case False
    with snoc have "l \<in> set xs" by simp
    from snoc.IH[OF this] False show ?thesis by (simp add: style_column_def Let_def)
  qed
qed

lemma style_sheet_styled:
  assumes "l \<in> set (column_letters (style_sheet sheet ws0))"
  shows "column_width (style_sheet sheet ws0) l =
           Some (if sheet = ustr ''CSM Summary'' \<and> (l = ustr ''B'' \<or> l = ustr ''C'') then 80 else 40) \<and>
         cfill (cells (style_sheet sheet ws0) (l, 1)) = header_fill \<and>
         cfont (cells (style_sheet sheet ws0) (l, 1)) = header_font"
proof -
  from assms have "l \<in> set (column_letters ws0)" by (simp only: column_letters_style_sheet)
  then show ?thesis unfolding style_sheet_def by (rule fold_style_column)
qed

lemma to_excel_None:
  "to_excel write_frame df_analysis None =
     [(ustr ''Call Analysis'', style_sheet (ustr ''Call Analysis'') (write_frame df_analysis))]"
  by (simp add: to_excel_def df_to_excel_def)

lemma to_excel_Some:
  "to_excel write_frame df_analysis (Some df_summary) =
     [(ustr ''Call Analysis'', style_sheet (ustr ''Call Analysis'') (write_frame df_analysis)),
      (ustr ''CSM Summary'', style_sheet (ustr ''CSM Summary'') (write_frame df_summary))]"
  by (simp add: to_excel_def df_to_excel_def ustr_def)

text \<open>
  Claim C8. Without a summary frame the workbook has the one sheet \<open>Call Analysis\<close>;
  with one it has the two sheets \<open>Call Analysis\<close> and \<open>CSM Summary\<close>, in this order.
  On every sheet every column has its width set, 80 for the columns \<open>B\<close> and \<open>C\<close> of
  the summary sheet and 40 for every other column, and the cell in row 1 of every column
  has the header fill (solid, \<open>1F497D\<close>) and the header font (bold, white).
\<close>

theorem to_excel_workbook:
  "map fst (to_excel write_frame df_analysis None) = [ustr ''Call Analysis''] \<and>
   map fst (to_excel write_frame df_analysis (Some df_summary)) = [ustr ''Call Analysis'', ustr ''CSM Summary''] \<and>
   (\<forall>(sheet, ws) \<in> set (to_excel write_frame df_analysis summary). \<forall>l \<in> set (column_letters ws).
      column_width ws l =
        Some (if sheet = ustr ''CSM Summary'' \<and> (l = ustr ''B'' \<or> l = ustr ''C'') then 80 else 40) \<and>
      cfill (cells ws (l, 1)) = \<lparr>start_color = Some (ustr ''1F497D''), end_color = Some (ustr ''1F497D''), fill_type = Some (ustr ''solid'')\<rparr> \<and> cfont (cells ws (l, 1)) = \<lparr>color = Some (ustr ''FFFFFF''), bold = True\<rparr>)"
proof (intro conjI)
  show "map fst (to_excel write_frame df_analysis None) = [ustr ''Call Analysis'']"
    by (simp add: to_excel_None)
  show "map fst (to_excel write_frame df_analysis (Some df_summary)) = [ustr ''Call Analysis'', ustr ''CSM Summary'']"
    by (simp add: to_excel_Some)
  show "\<forall>(sheet, ws) \<in> set (to_excel write_frame df_analysis summary). \<forall>l \<in> set (column_letters ws).
      column_width ws l =
        Some (if sheet = ustr ''CSM Summary'' \<and> (l = ustr ''B'' \<or> l = ustr ''C'') then 80 else 40) \<and>
      cfill (cells ws (l, 1)) = \<lparr>start_color = Some (ustr ''1F497D''), end_color = Some (ustr ''1F497D''), fill_type = Some (ustr ''solid'')\<rparr> \<and> cfont (cells ws (l, 1)) = \<lparr>color = Some (ustr ''FFFFFF''), bold = True\<rparr>"
  proof -
    have "\<forall>l \<in> set (column_letters ws).
        column_width ws l =
          Some (if sheet = ustr ''CSM Summary'' \<and> (l = ustr ''B'' \<or> l = ustr ''C'') then 80 else 40) \<and>
        cfill (cells ws (l, 1)) = \<lparr>start_color = Some (ustr ''1F497D''), end_color = Some (ustr ''1F497D''), fill_type = Some (ustr ''solid'')\<rparr> \<and> cfont (cells ws (l, 1)) = \<lparr>color = Some (ustr ''FFFFFF''), bold = True\<rparr>"
      if "(sheet, ws) \<in> set (to_excel write_frame df_analysis summary)" for sheet ws
    proof -
      from that obtain ws0 where "ws = style_sheet sheet ws0"
        by (cases summary) (auto simp: to_excel_None to_excel_Some)
      then show ?thesis using style_sheet_styled[of _ sheet ws0, unfolded header_fill_def header_font_def] by blast
    qed
    then show ?thesis by blast
  qed
qed

theorem to_excel_workbook_witness:
  "(let write_frame = (\<lambda>df :: ustring dataframe.
        \<lparr>column_letters = map (\<lambda>i. [0x41 + i]) [0..<length (columns df)],
         column_width = (\<lambda>l. None),
         cells = (\<lambda>c. \<lparr>cvalue = ([] :: ustring),
                         cfill = \<lparr>start_color = None, end_color = None, fill_type = None\<rparr>,
                         cfont = \<lparr>color = None, bold = False\<rparr>\<rparr>)\<rparr>);
        df_analysis = \<lparr>columns = [ustr ''CSM Name'', ustr ''Customer Name''], rows = []\<rparr>;
        df_summary = \<lparr>columns = [ustr ''CSM Name'', ustr ''Strengths'', ustr ''Areas of Improvement''], rows = []\<rparr>;
        wb = to_excel write_frame df_analysis (Some df_summary)
    in map fst (to_excel write_frame df_analysis None) = [ustr ''Call Analysis''] \<and>
       map fst wb = [ustr ''Call Analysis'', ustr ''CSM Summary''] \<and>
       column_width (snd (wb ! 1)) (ustr ''A'') = Some 40 \<and>
       column_width (snd (wb ! 1)) (ustr ''B'') = Some 80 \<and>
       column_width (snd (wb ! 1)) (ustr ''C'') = Some 80 \<and>
       column_width (snd (wb ! 0)) (ustr ''B'') = Some 40 \<and>
       cfill (cells (snd (wb ! 0)) (ustr ''A'', 1)) = \<lparr>start_color = Some (ustr ''1F497D''), end_color = Some (ustr ''1F497D''), fill_type = Some (ustr ''solid'')\<rparr> \<and>
       cfont (cells (snd (wb ! 1)) (ustr ''C'', 1)) = \<lparr>color = Some (ustr ''FFFFFF''), bold = True\<rparr>)"
proof -
  let ?write_frame = "\<lambda>df :: ustring dataframe.
        \<lparr>column_letters = map (\<lambda>i. [0x41 + i]) [0..<length (columns df)],
         column_width = (\<lambda>l. None),
         cells = (\<lambda>c. \<lparr>cvalue = ([] :: ustring),
                         cfill = \<lparr>start_color = None, end_color = None, fill_type = None\<rparr>,
                         cfont = \<lparr>color = None, bold = False\<rparr>\<rparr>)\<rparr>"
  let ?da = "\<lparr>columns = [ustr ''CSM Name'', ustr ''Customer Name''], rows = []\<rparr> :: ustring dataframe"
  let ?ds = "\<lparr>columns = [ustr ''CSM Name'', ustr ''Strengths'', ustr ''Areas of Improvement''], rows = []\<rparr>
      :: ustring dataframe"
  let ?wb = "to_excel ?write_frame ?da (Some ?ds)"
  let ?wa = "style_sheet (ustr ''Call Analysis'') (?write_frame ?da)"
  let ?ws = "style_sheet (ustr ''CSM Summary'') (?write_frame ?ds)"
  note inst = to_excel_workbook[of ?write_frame ?da ?ds "Some ?ds"]
  have wb: "?wb = [(ustr ''Call Analysis'', ?wa), (ustr ''CSM Summary'', ?ws)]"
    by (rule to_excel_Some)
  have la: "column_letters ?wa = [ustr ''A'', ustr ''B'']"
    by (simp add: column_letters_style_sheet ustr_def upt_rec)
  have ls: "column_letters ?ws = [ustr ''A'', ustr ''B'', ustr ''C'']"
    by (simp add: column_letters_style_sheet ustr_def upt_rec)
  have ne: "ustr ''Call Analysis'' \<noteq> ustr ''CSM Summary''" "ustr ''A'' \<noteq> ustr ''B''" "ustr ''A'' \<noteq> ustr ''C''"
    by (simp_all add: ustr_def)
  from inst have all: "\<forall>(sheet, ws) \<in> set ?wb. \<forall>l \<in> set (column_letters ws).
      column_width ws l =
        Some (if sheet = ustr ''CSM Summary'' \<and> (l = ustr ''B'' \<or> l = ustr ''C'') then 80 else 40) \<and>
      cfill (cells ws (l, 1)) = \<lparr>start_color = Some (ustr ''1F497D''), end_color = Some (ustr ''1F497D''), fill_type = Some (ustr ''solid'')\<rparr> \<and> cfont (cells ws (l, 1)) = \<lparr>color = Some (ustr ''FFFFFF''), bold = True\<rparr>"
    by blast
  have a: "\<forall>l \<in> set (column_letters ?wa). column_width ?wa l =
        Some (if ustr ''Call Analysis'' = ustr ''CSM Summary'' \<and> (l = ustr ''B'' \<or> l = ustr ''C'') then 80 else 40) \<and>
      cfill (cells ?wa (l, 1)) = \<lparr>start_color = Some (ustr ''1F497D''), end_color = Some (ustr ''1F497D''), fill_type = Some (ustr ''solid'')\<rparr> \<and> cfont (cells ?wa (l, 1)) = \<lparr>color = Some (ustr ''FFFFFF''), bold = True\<rparr>"
    using all unfolding wb by simp
  have s: "\<forall>l \<in> set (column_letters ?ws). column_width ?ws l =
        Some (if ustr ''CSM Summary'' = ustr ''CSM Summary'' \<and> (l = ustr ''B'' \<or> l = ustr ''C'') then 80 else 40) \<and>
      cfill (cells ?ws (l, 1)) = \<lparr>start_color = Some (ustr ''1F497D''), end_color = Some (ustr ''1F497D''), fill_type = Some (ustr ''solid'')\<rparr> \<and> cfont (cells ?ws (l, 1)) = \<lparr>color = Some (ustr ''FFFFFF''), bold = True\<rparr>"
    using all unfolding wb by simp
  have "map fst (to_excel ?write_frame ?da None) = [ustr ''Call Analysis'']"
    "map fst ?wb = [ustr ''Call Analysis'', ustr ''CSM Summary'']"
    using inst by blast+
  moreover have "column_width ?ws (ustr ''A'') = Some 40" "column_width ?ws (ustr ''B'') = Some 80"
    "column_width ?ws (ustr ''C'') = Some 80" "cfont (cells ?ws (ustr ''C'', 1)) = \<lparr>color = Some (ustr ''FFFFFF''), bold = True\<rparr>"
    using s unfolding ls by (simp_all add: ne)
  moreover have "column_width ?wa (ustr ''B'') = Some 40" "cfill (cells ?wa (ustr ''A'', 1)) = \<lparr>start_color = Some (ustr ''1F497D''), end_color = Some (ustr ''1F497D''), fill_type = Some (ustr ''solid'')\<rparr>"
    using a unfolding la by (simp_all add: ne)
  ultimately show ?thesis
    unfolding Let_def wb by simp
qed

section \<open>Properties of the retry loop\<close>

lemma analyze_call_Some_nonempty:
  "analyze_call model text = Some d \<Longrightarrow> d \<noteq> []"
  by (auto simp: analyze_call_def build_record_def Let_def split: sum.splits if_splits)

lemma retry_loop_requests:
  "requests (retry_loop model text fname attempts st) \<le> requests st + length attempts"
proof (induction attempts arbitrary: st)
  case Nil
  then show ?case by simp
next
  case (Cons a attempts)
  show ?case
    using Cons.IH[of "st\<lparr>requests := requests st + 1, pauses := pauses st @ [2]\<rparr>"]
    by (simp add: Let_def)
qed

lemma retry_loop_all_fail:
  "\<forall>k<length attempts. analyze_call (model (requests st + k)) text = None \<Longrightarrow>
   retry_loop model text fname attempts st =
     st\<lparr>requests := requests st + length attempts,
        pauses := pauses st @ replicate (length attempts) 2\<rparr>"
proof (induction attempts arbitrary: st)
  case Nil
  then show ?case by simp
next
  case (Cons a attempts)
  let ?st = "st\<lparr>requests := requests st + 1, pauses := pauses st @ [2]\<rparr>"
  from Cons.prems have first: "analyze_call (model (requests st)) text = None" by force
  have "\<forall>k<length attempts. analyze_call (model (requests ?st + k)) text = None"
  proof (intro allI impI)
    fix k assume "k < length attempts"
    then have "Suc k < length (a # attempts)" by simp
    with Cons.prems have "analyze_call (model (requests st + Suc k)) text = None" by blast
    then show "analyze_call (model (requests ?st + k)) text = None" by simp
  qed
  from Cons.IH[OF this] first show ?case
    by (simp add: Let_def replicate_append_same)
qed

lemma retry_loop_success:
  "k < length attempts \<Longrightarrow> analyze_call (model (requests st + k)) text = Some d \<Longrightarrow>
   \<forall>j<k. analyze_call (model (requests st + j)) text = None \<Longrightarrow>
   retry_loop model text fname attempts st =
     st\<lparr>requests := requests st + k + 1,
        pauses := pauses st @ replicate k 2,
        results := results st @ [AList.update (ustr ''File Name'') fname d]\<rparr>"
proof (induction attempts arbitrary: st k)
  case Nil
  then show ?case by simp
next
  case (Cons a attempts)
  show ?case
  proof (cases k)
    case 0
    with Cons.prems(2) have "analyze_call (model (requests st)) text = Some d" by simp
    moreover from this have "d \<noteq> []" by (rule analyze_call_Some_nonempty)
    ultimately show ?thesis using 0 by (simp add: Let_def)
  next
    case (Suc k')
    let ?st = "st\<lparr>requests := requests st + 1, pauses := pauses st @ [2]\<rparr>"
    from Cons.prems(3) Suc have first: "analyze_call (model (requests st)) text = None" by force
    have k': "k' < length attempts" using Cons.prems(1) Suc by simp
    have d: "analyze_call (model (requests ?st + k')) text = Some d"
      using Cons.prems(2) Suc by simp
    have "\<forall>j<k'. analyze_call (model (requests ?st + j)) text = None"
    proof (intro allI impI)
      fix j assume "j < k'"
      then have "Suc j < k" using Suc by simp
      with Cons.prems(3) have "analyze_call (model (requests st + Suc j)) text = None" by blast
      then show "analyze_call (model (requests ?st + j)) text = None" by simp
    qed
    from Cons.IH[OF k' d this] first Suc show ?thesis
      by (simp add: Let_def replicate_append_same)
  qed
qed

text \<open>
  Claim C9. For one transcript the loop sends at most three analysis requests. A blank
  extracted text gets none and adds nothing. For a text that is not blank: when all three
  attempts return \<open>None\<close> the results are left as they were; when attempt \<open>k\<close> is
  the first to return a record, exactly that record is appended, with the key
  \<open>File Name\<close> set to the name of the uploaded file, after \<open>k\<close> pauses of two
  seconds, and no further request is sent.
\<close>

theorem process_file_retries:
  assumes "extract_text_from_pdf PdfReader extract_text (getvalue f) = Inr text"
  shows "\<exists>st'. process_file PdfReader extract_text model f st = Inr st' \<and>
     requests st' \<le> requests st + 3 \<and>
     (strip text = [] \<longrightarrow> results st' = results st \<and> requests st' = requests st) \<and>
     (strip text \<noteq> [] \<and> (\<forall>k<3. analyze_call (model (requests st + k)) text = None) \<longrightarrow>
        results st' = results st \<and> requests st' = requests st + 3) \<and>
     (\<forall>k d. strip text \<noteq> [] \<and> k < 3 \<and> analyze_call (model (requests st + k)) text = Some d \<and>
             (\<forall>j<k. analyze_call (model (requests st + j)) text = None) \<longrightarrow>
        (\<exists>r. results st' = results st @ [r] \<and>
             map_of r (ustr ''File Name'') = Some (file_name f) \<and>
             (\<forall>key. key \<noteq> ustr ''File Name'' \<longrightarrow> map_of r key = map_of d key) \<and>
             requests st' = requests st + k + 1 \<and>
             pauses st' = pauses st @ replicate k 2 @ [1]))"
proof (cases "strip text = []")
  case True
  then have "process_file PdfReader extract_text model f st = Inr (st\<lparr>pauses := pauses st @ [1]\<rparr>)"
    using assms by (simp add: process_file_def)
  with True show ?thesis by simp
next
  case False
  let ?loop = "retry_loop model text (file_name f) [0, 1, 2] st"
  let ?st' = "?loop\<lparr>pauses := pauses ?loop @ [1]\<rparr>"
  have run: "process_file PdfReader extract_text model f st = Inr ?st'"
    using assms False by (simp add: process_file_def Let_def del: retry_loop.simps)
  have bound: "requests ?st' \<le> requests st + 3"
    using retry_loop_requests[of model "text" "file_name f" "[0, 1, 2]" st] by simp
  have fail: "results ?st' = results st \<and> requests ?st' = requests st + 3"
    if "\<forall>k<3. analyze_call (model (requests st + k)) text = None"
    using retry_loop_all_fail[of "[0, 1, 2]" model st "text" "file_name f"] that by simp
  have succ: "\<exists>r. results ?st' = results st @ [r] \<and>
             map_of r (ustr ''File Name'') = Some (file_name f) \<and>
             (\<forall>key. key \<noteq> ustr ''File Name'' \<longrightarrow> map_of r key = map_of d key) \<and>
             requests ?st' = requests st + k + 1 \<and>
             pauses ?st' = pauses st @ replicate k 2 @ [1]"
    if "k < 3" "analyze_call (model (requests st + k)) text = Some d"
       "\<forall>j<k. analyze_call (model (requests st + j)) text = None" for k d
  proof -
    have "?loop = st\<lparr>requests := requests st + k + 1,
        pauses := pauses st @ replicate k 2,
        results := results st @ [AList.update (ustr ''File Name'') (file_name f) d]\<rparr>"
      using retry_loop_success[of k "[0, 1, 2]" model st "text" d "file_name f"] that by simp
    then have "results ?st' = results st @ [AList.update (ustr ''File Name'') (file_name f) d]"
      "requests ?st' = requests st + k + 1" "pauses ?st' = pauses st @ replicate k 2 @ [1]"
      by simp_all
    moreover have "map_of (AList.update (ustr ''File Name'') (file_name f) d) (ustr ''File Name'')
        = Some (file_name f)"
      by (simp add: update_conv')
    moreover have "\<forall>key. key \<noteq> ustr ''File Name'' \<longrightarrow>
        map_of (AList.update (ustr ''File Name'') (file_name f) d) key = map_of d key"
      by (simp add: update_conv')
    ultimately show ?thesis by blast
  qed
  from run bound fail succ False show ?thesis by blast
qed

theorem process_file_retries_witness:
  "(let PdfReader = (\<lambda>b. Inr [ustr ''Hello'']);
        extract_text = (\<lambda>page :: ustring. Inr page);
        model = (\<lambda>n p s. if n < 2 then Inl (PyException (ustr ''ResourceExhausted'')) else Inr (ustr ''Asha###Ravi''));
        f = \<lparr>file_name = ustr ''call1.pdf'', getvalue = [0x25, 0x50, 0x44, 0x46]\<rparr>;
        st = \<lparr>results = [], requests = 0, pauses = []\<rparr>
    in \<exists>st' r. process_file PdfReader extract_text model f st = Inr st' \<and>
         results st' = [r] \<and> map_of r (ustr ''File Name'') = Some (ustr ''call1.pdf'') \<and>
         map_of r (ustr ''CSM Name'') = Some (ustr ''Asha'') \<and>
         requests st' = 3 \<and> pauses st' = [2, 2, 1])"
proof -
  let ?PdfReader = "\<lambda>b :: bytes. Inr [ustr ''Hello''] :: exn + ustring list"
  let ?extract_text = "\<lambda>page :: ustring. Inr page :: exn + ustring"
  let ?model = "\<lambda>(n :: nat) (p :: ustring) (s :: safety_settings option).
      if n < 2 then Inl (PyException (ustr ''ResourceExhausted'')) else Inr (ustr ''Asha###Ravi'') :: exn + ustring"
  let ?f = "\<lparr>file_name = ustr ''call1.pdf'', getvalue = [0x25, 0x50, 0x44, 0x46]\<rparr>"
  let ?st = "\<lparr>results = [], requests = 0, pauses = []\<rparr>"
  let ?text = "ustr ''Hello\<newline>''"
  have x: "extract_text_from_pdf ?PdfReader ?extract_text (getvalue ?f) = Inr ?text"
    by (simp add: extract_text_from_pdf_def ustr_def)
  have s: "strip ?text \<noteq> []"
    by (simp add: strip_def lstrip_def rstrip_def isspace_def ustr_def)
  have "map_of (zip field_keys (take 17 (pad_parts (map strip (str_split separator (ustr ''Asha###Ravi''))))))
      (ustr ''CSM Name'') = Some (ustr ''Asha'')"
    by (simp add: pad_parts_eq str_split_def separator_def field_keys_def strip_def lstrip_def
          rstrip_def isspace_def ustr_def)
  then obtain d where a2: "analyze_call (?model (requests ?st + 2)) ?text = Some d"
    and csm: "map_of d (ustr ''CSM Name'') = Some (ustr ''Asha'')"
    using analyze_call_reply[of "?model 2" ?text "ustr ''Asha###Ravi''"] by simp
  have a01: "\<forall>j<2. analyze_call (?model (requests ?st + j)) ?text = None"
    by (simp add: analyze_call_def)
  have ne: "ustr ''CSM Name'' \<noteq> ustr ''File Name''" by (simp add: ustr_def)
  from process_file_retries[OF x, of ?model ?st]
  obtain st' where st': "process_file ?PdfReader ?extract_text ?model ?f ?st = Inr st'"
    and succ: "\<forall>k d. strip ?text \<noteq> [] \<and> k < 3 \<and>
             analyze_call (?model (requests ?st + k)) ?text = Some d \<and>
             (\<forall>j<k. analyze_call (?model (requests ?st + j)) ?text = None) \<longrightarrow>
        (\<exists>r. results st' = results ?st @ [r] \<and>
             map_of r (ustr ''File Name'') = Some (file_name ?f) \<and>
             (\<forall>key. key \<noteq> ustr ''File Name'' \<longrightarrow> map_of r key = map_of d key) \<and>
             requests st' = requests ?st + k + 1 \<and>
             pauses st' = pauses ?st @ replicate k 2 @ [1])"
    by blast
  have "strip ?text \<noteq> [] \<and> (2::nat) < 3 \<and>
             analyze_call (?model (requests ?st + 2)) ?text = Some d \<and>
             (\<forall>j<2. analyze_call (?model (requests ?st + j)) ?text = None)"
    using s a2 a01 by simp
  from succ[rule_format, OF this]
  obtain r where r: "results st' = results ?st @ [r]"
     "map_of r (ustr ''File Name'') = Some (file_name ?f)"
     "\<forall>key. key \<noteq> ustr ''File Name'' \<longrightarrow> map_of r key = map_of d key"
     "requests st' = requests ?st + 2 + 1" "pauses st' = pauses ?st @ replicate 2 2 @ [1]"
    by blast
  from r(3) ne csm have c: "map_of r (ustr ''CSM Name'') = Some (ustr ''Asha'')" by simp
  have "results st' = [r]" "map_of r (ustr ''File Name'') = Some (ustr ''call1.pdf'')"
    "requests st' = 3" "pauses st' = [2, 2, 1]"
    using r by (simp_all add: numeral_2_eq_2)
  with st' c show ?thesis
    unfolding Let_def by blast
qed

end
